theory Spec2Isabelle
  imports Complex_Main
begin

section \<open>Dates, clock times and timestamps\<close>

text \<open>
  The scheduling engine of \<^verbatim>\<open>streamlit_app.py\<close> works on Python \<^verbatim>\<open>date\<close>,
  \<^verbatim>\<open>time\<close> and \<^verbatim>\<open>datetime\<close> values. Every timestamp it builds comes from
  \<^verbatim>\<open>datetime.combine(d, time(h, m))\<close> and from adding whole minutes, so seconds and
  microseconds are always zero. A date is its proleptic Gregorian ordinal
  (\<^verbatim>\<open>date.toordinal()\<close>, 1 for 0001-01-01 and 3652059 for 9999-12-31), a clock time
  is its minute of the day, and a timestamp is the number of minutes \<open>d * 1440 + t\<close>.
  Timestamps compare like Python's (date first, then clock time), a \<^verbatim>\<open>timedelta\<close> is
  a number of minutes.

  Python's \<^verbatim>\<open>date + timedelta(days=n)\<close> raises \<^verbatim>\<open>OverflowError\<close> when the result
  leaves the years 1 to 9999; \<open>date_add\<close> keeps that branch. Sums of minutes are plain
  integer additions. That is exact for the durations the statements below are about,
  multiples of a quarter of an hour from 0 to 24 hours (\<open>quarter_hours\<close>, which holds of
  every duration of the catalog): once the two dates of the day window are valid, every
  timestamp of a placement call lies between 12:45 of the first and 23:59 of the second.
  For a longer duration Python may raise \<^verbatim>\<open>OverflowError\<close> at \<^verbatim>\<open>start + dur\<close> where
  the model returns, so nothing is stated about those.
\<close>

type_synonym date = int
type_synonym datetime = int
type_synonym clock = int

definition time :: "int \<Rightarrow> int \<Rightarrow> clock" where
  "time h m = h * 60 + m"

definition combine :: "date \<Rightarrow> clock \<Rightarrow> datetime" where
  "combine d t = d * 1440 + t"

definition dt_date :: "datetime \<Rightarrow> date" where
  "dt_date dt = dt div 1440"

definition dt_time :: "datetime \<Rightarrow> clock" where
  "dt_time dt = dt mod 1440"

datatype error = OverflowError

definition MAXORD :: int where
  "MAXORD = 3652059"

definition date_add :: "date \<Rightarrow> int \<Rightarrow> error + date" where
  "date_add d n = (if 1 \<le> d + n \<and> d + n \<le> MAXORD then Inr (d + n) else Inl OverflowError)"

definition snap_15 :: "datetime \<Rightarrow> datetime" where
  "snap_15 dt = dt - (dt mod 60) + ((dt mod 60) div 15) * 15"

definition start_of_week_monday :: "date \<Rightarrow> date" where
  \<comment> \<open>\<^verbatim>\<open>d.weekday()\<close> is \<open>(ordinal + 6) mod 7\<close>: ordinal 1 is a Monday.\<close>
  "start_of_week_monday d = d - ((d + 6) mod 7)"

section \<open>Events and the fixed tables\<close>

text \<open>
  The dataclass \<^verbatim>\<open>Event\<close>. The field \<^verbatim>\<open>kind\<close> holds the string
  \<^verbatim>\<open>"teaching"\<close> or \<^verbatim>\<open>"task"\<close>. The dictionary \<^verbatim>\<open>TEACHING\<close> is an association
  list read through \<open>TEACHING_get\<close>, which is \<^verbatim>\<open>TEACHING.get(wd, [])\<close>. The durations
  of \<^verbatim>\<open>TASK_SPECS\<close> are the floats 1.0, 1.5, 2.0 and 0.75, all exact binary fractions,
  kept here as rationals; \<open>int_trunc\<close> is Python's \<^verbatim>\<open>int()\<close> on them. A float that is
  a multiple of a quarter and at most 24 is exact, and so is its product with 60; for
  other floats the product may round, and the model says nothing about them.
\<close>

record Event =
  ev_name :: string
  ev_start :: datetime
  ev_end :: datetime
  ev_color :: string
  ev_kind :: string

definition TEACHING :: "(int \<times> (string \<times> clock \<times> clock \<times> string) list) list" where
  "TEACHING =
    [(0, [(''Beginner Class'', time 17 0, time 18 0, ''#a855f7''),
          (''Leo Mootoo'', time 18 15, time 19 15, ''#ef4444'')]),
     (1, [(''Pranava Classes'', time 13 30, time 17 30, ''#14b8a6''),
          (''Advanced Class'', time 18 30, time 19 30, ''#3b82f6'')]),
     (2, [(''Jaydon'', time 18 30, time 19 30, ''#f97316'')]),
     (3, [(''Beginner Class'', time 17 0, time 18 0, ''#a855f7'')]),
     (4, [(''Leo Mootoo'', time 17 0, time 18 0, ''#ef4444'')]),
     (6, [(''Amrit'', time 19 0, time 20 0, ''#84cc16'')])]"

definition TEACHING_get :: "int \<Rightarrow> (string \<times> clock \<times> clock \<times> string) list" where
  "TEACHING_get wd = (case map_of TEACHING wd of None \<Rightarrow> [] | Some blocks \<Rightarrow> blocks)"

definition TASK_SPECS :: "(string \<times> rat \<times> int \<times> string) list" where
  "TASK_SPECS =
    [(''My System'', 1, 2, ''#8b5cf6''),
     (''Calculation'', 1, 4, ''#f472b6''),
     (''Opening Study'', 1, 5, ''#6366f1''),
     (''Middlegame Study'', 3/2, 2, ''#ec4899''),
     (''Endgame Study'', 1, 2, ''#22c55e''),
     (''chessable/website tasks'', 2, 2, ''#0ea5e9''),
     (''League Study'', 2, 2, ''#f59e0b''),
     (''Gym'', 3/4, 2, ''#10b981'')]"

definition BUFFER_MIN :: int where "BUFFER_MIN = 15"
definition WINDOW_START :: clock where "WINDOW_START = time 13 0"
definition WINDOW_END_NEXTDAY :: clock where "WINDOW_END_NEXTDAY = time 2 0"
definition MAX_TASKS_WEEKDAY :: int where "MAX_TASKS_WEEKDAY = 3"
definition MAX_TASKS_WEEKEND :: int where "MAX_TASKS_WEEKEND = 4"

section \<open>Overlap and buffer\<close>

definition overlaps :: "datetime \<Rightarrow> datetime \<Rightarrow> datetime \<Rightarrow> datetime \<Rightarrow> bool" where
  "overlaps a_start a_end b_start b_end = (\<not> (a_end \<le> b_start \<or> a_start \<ge> b_end))"

fun no_overlap_loop :: "datetime \<Rightarrow> datetime \<Rightarrow> Event list \<Rightarrow> bool" where
  "no_overlap_loop s e [] = True"
| "no_overlap_loop s e (ev # evs) =
     (if overlaps s e (ev_start ev) (ev_end ev) then False else no_overlap_loop s e evs)"

definition can_place :: "Event list \<Rightarrow> datetime \<Rightarrow> datetime \<Rightarrow> bool" where
  "can_place events start end' =
     (let s = start - BUFFER_MIN; e = end' + BUFFER_MIN in no_overlap_loop s e events)"

definition day_window :: "date \<Rightarrow> error + (datetime \<times> datetime)" where
  "day_window d =
     (case date_add d 1 of
        Inl err \<Rightarrow> Inl err
      | Inr d1 \<Rightarrow> Inr (combine d WINDOW_START, combine d1 WINDOW_END_NEXTDAY))"

section \<open>Time-of-day search on one weekday\<close>

text \<open>
  \<^verbatim>\<open>try_place_task_on_day\<close> builds the candidate start times (the preferred clock
  times that fit the window, then the full scan of the window in steps of 15 minutes),
  removes duplicates keeping the first, and takes the first candidate that passes the
  rules of its task and \<open>can_place\<close>. It appends the event to the list and returns
  \<^verbatim>\<open>True\<close>, or leaves the list alone and returns \<^verbatim>\<open>False\<close>; the model returns the
  list with the flag.
\<close>

definition int_trunc :: "rat \<Rightarrow> int" where
  "int_trunc x = (if 0 \<le> x then \<lfloor>x\<rfloor> else \<lceil>x\<rceil>)"

definition preferred_start_times :: "clock list" where
  "preferred_start_times =
    [time 22 0, time 22 15, time 22 30, time 22 45,
     time 23 0, time 23 15, time 23 30, time 23 45,
     time 21 0, time 21 15, time 21 30, time 21 45,
     time 20 0, time 20 15, time 20 30, time 20 45,
     time 13 0, time 13 15, time 13 30, time 13 45,
     time 14 0, time 14 15, time 14 30, time 14 45,
     time 15 0, time 15 15, time 15 30, time 15 45,
     time 16 0, time 16 15, time 16 30, time 16 45,
     time 17 0, time 17 15, time 17 30, time 17 45,
     time 18 0, time 18 15, time 18 30, time 18 45,
     time 19 0, time 19 15, time 19 30, time 19 45]"

definition preferred_days :: "int list" where
  "preferred_days = [0, 3, 2, 4, 5, 6, 1]"

fun preferred_candidates :: "date \<Rightarrow> datetime \<Rightarrow> datetime \<Rightarrow> int \<Rightarrow> clock list \<Rightarrow> datetime list" where
  "preferred_candidates d wstart wend dur [] = []"
| "preferred_candidates d wstart wend dur (t # ts) =
     (let base_date = (if t \<ge> WINDOW_START then d else d + 1);
          start = snap_15 (combine base_date t)
      in (if wstart \<le> start \<and> start + dur \<le> wend then [start] else [])
           @ preferred_candidates d wstart wend dur ts)"

function full_scan :: "datetime \<Rightarrow> int \<Rightarrow> datetime \<Rightarrow> datetime list" where
  "full_scan cur dur wend =
     (if cur + dur \<le> wend then cur # full_scan (cur + 15) dur wend else [])"
  by pat_completeness auto
termination
  by (relation "measure (\<lambda>(cur, dur, wend). nat (wend - dur - cur + 1))") auto

declare full_scan.simps [simp del]

fun dedupe :: "datetime set \<Rightarrow> datetime list \<Rightarrow> datetime list" where
  "dedupe seen [] = []"
| "dedupe seen (c # cs) =
     (if c \<notin> seen then c # dedupe (insert c seen) cs else dedupe seen cs)"

fun first_fit :: "string \<Rightarrow> int \<Rightarrow> string \<Rightarrow> date \<Rightarrow> Event list \<Rightarrow> datetime list \<Rightarrow> Event list \<times> bool" where
  "first_fit task_name dur color d events [] = (events, False)"
| "first_fit task_name dur color d events (start # rest) =
     (let end' = start + dur in
      if task_name = ''Gym'' \<and> dt_date start \<noteq> dt_date end' then
        first_fit task_name dur color d events rest
      else if task_name = ''Gym'' \<and> dt_time end' > time 21 0 then
        first_fit task_name dur color d events rest
      else if task_name = ''chessable/website tasks'' \<and> dt_time start < time 21 0 then
        first_fit task_name dur color d events rest
      else if task_name = ''chessable/website tasks'' \<and> dt_date start \<noteq> d then
        first_fit task_name dur color d events rest
      else if can_place events start end' then
        (events @ [\<lparr>ev_name = task_name, ev_start = start, ev_end = end',
                     ev_color = color, ev_kind = ''task''\<rparr>], True)
      else first_fit task_name dur color d events rest)"

definition try_place_task_on_day ::
  "date \<Rightarrow> Event list \<Rightarrow> string \<Rightarrow> rat \<Rightarrow> string \<Rightarrow> int \<Rightarrow> error + (Event list \<times> bool)" where
  "try_place_task_on_day week_start events task_name dur_hours color wd =
     (case date_add week_start wd of
        Inl err \<Rightarrow> Inl err
      | Inr d \<Rightarrow>
          (case day_window d of
             Inl err \<Rightarrow> Inl err
           | Inr (wstart, wend) \<Rightarrow>
               (let dur = int_trunc (dur_hours * 60);
                    candidates = preferred_candidates d wstart wend dur preferred_start_times
                                   @ full_scan (snap_15 wstart) dur wend;
                    uniq = dedupe {} candidates
                in Inr (first_fit task_name dur color d events uniq))))"

section \<open>The weekly search\<close>

text \<open>
  The bookkeeping of one run of \<^verbatim>\<open>build_events\<close>. \<^verbatim>\<open>used_days\<close> is created with
  an empty set for every task name and is read either at a task name or through
  \<^verbatim>\<open>.get(name, set())\<close>, so a total function that starts as the empty set everywhere
  gives the same answers. \<^verbatim>\<open>tasks_per_day\<close> starts at zero for the weekdays 0 to 6.

  \<open>strict_pass\<close> is the first \<^verbatim>\<open>for wd in preferred_days\<close> loop of an occurrence,
  \<open>relaxed_pass\<close> the second one, run when the first placed nothing. Each returns the
  state with the flag \<^verbatim>\<open>placed\<close>.
\<close>

record sched =
  events :: "Event list"
  used_days :: "string \<Rightarrow> int set"
  tasks_per_day :: "int \<Rightarrow> int"
  gym_days :: "int list"

fun strict_pass ::
  "date \<Rightarrow> string \<Rightarrow> rat \<Rightarrow> string \<Rightarrow> int list \<Rightarrow> sched \<Rightarrow> error + (sched \<times> bool)" where
  "strict_pass week_start name hrs color [] st = Inr (st, False)"
| "strict_pass week_start name hrs color (wd # wds) st =
     (if wd \<in> used_days st name then strict_pass week_start name hrs color wds st
      else if name = ''Opening Study'' \<and> wd \<in> used_days st ''Endgame Study'' then
        strict_pass week_start name hrs color wds st
      else if name = ''Endgame Study'' \<and> wd \<in> used_days st ''Opening Study'' then
        strict_pass week_start name hrs color wds st
      else if tasks_per_day st wd \<ge> (if wd \<ge> 5 then MAX_TASKS_WEEKEND else MAX_TASKS_WEEKDAY) then
        strict_pass week_start name hrs color wds st
      else if name = ''Gym'' \<and> list_ex (\<lambda>gd. \<bar>wd - gd\<bar> < 2) (gym_days st) then
        strict_pass week_start name hrs color wds st
      else
        (case try_place_task_on_day week_start (events st) name hrs color wd of
           Inl err \<Rightarrow> Inl err
         | Inr (evs, ok) \<Rightarrow>
             if ok then
               Inr (st\<lparr>events := evs,
                       used_days := (used_days st)(name := insert wd (used_days st name)),
                       tasks_per_day := (tasks_per_day st)(wd := tasks_per_day st wd + 1),
                       gym_days := (if name = ''Gym'' then gym_days st @ [wd] else gym_days st)\<rparr>,
                    True)
             else strict_pass week_start name hrs color wds (st\<lparr>events := evs\<rparr>)))"

fun relaxed_pass ::
  "date \<Rightarrow> string \<Rightarrow> rat \<Rightarrow> string \<Rightarrow> int list \<Rightarrow> sched \<Rightarrow> error + (sched \<times> bool)" where
  "relaxed_pass week_start name hrs color [] st = Inr (st, False)"
| "relaxed_pass week_start name hrs color (wd # wds) st =
     (if wd \<in> used_days st name then relaxed_pass week_start name hrs color wds st
      else if name = ''Opening Study'' \<and> wd \<in> used_days st ''Endgame Study'' then
        relaxed_pass week_start name hrs color wds st
      else if name = ''Endgame Study'' \<and> wd \<in> used_days st ''Opening Study'' then
        relaxed_pass week_start name hrs color wds st
      else if name = ''Gym'' \<and> list_ex (\<lambda>gd. \<bar>wd - gd\<bar> < 2) (gym_days st) then
        relaxed_pass week_start name hrs color wds st
      else
        (case try_place_task_on_day week_start (events st) name hrs color wd of
           Inl err \<Rightarrow> Inl err
         | Inr (evs, ok) \<Rightarrow>
             if ok then
               Inr (st\<lparr>events := evs,
                       used_days := (used_days st)(name := insert wd (used_days st name)),
                       gym_days := (if name = ''Gym'' then gym_days st @ [wd] else gym_days st)\<rparr>,
                    True)
             else relaxed_pass week_start name hrs color wds (st\<lparr>events := evs\<rparr>)))"

definition place_occurrence ::
  "date \<Rightarrow> string \<Rightarrow> rat \<Rightarrow> string \<Rightarrow> sched \<Rightarrow> error + sched" where
  "place_occurrence week_start name hrs color st =
     (case strict_pass week_start name hrs color preferred_days st of
        Inl err \<Rightarrow> Inl err
      | Inr (st1, placed) \<Rightarrow>
          if \<not> placed then
            (case relaxed_pass week_start name hrs color preferred_days st1 of
               Inl err \<Rightarrow> Inl err
             | Inr (st2, placed2) \<Rightarrow> Inr st2)
          else Inr st1)"

fun place_occurrences ::
  "date \<Rightarrow> string \<Rightarrow> rat \<Rightarrow> string \<Rightarrow> nat \<Rightarrow> sched \<Rightarrow> error + sched" where
  "place_occurrences week_start name hrs color 0 st = Inr st"
| "place_occurrences week_start name hrs color (Suc n) st =
     (case place_occurrence week_start name hrs color st of
        Inl err \<Rightarrow> Inl err
      | Inr st' \<Rightarrow> place_occurrences week_start name hrs color n st')"

fun place_tasks ::
  "date \<Rightarrow> (string \<times> rat \<times> int \<times> string) list \<Rightarrow> sched \<Rightarrow> error + sched" where
  "place_tasks week_start [] st = Inr st"
| "place_tasks week_start ((name, hrs, count, color) # specs) st =
     (case place_occurrences week_start name hrs color (nat count) st of
        Inl err \<Rightarrow> Inl err
      | Inr st' \<Rightarrow> place_tasks week_start specs st')"

fun seed_teaching :: "date \<Rightarrow> int list \<Rightarrow> Event list \<Rightarrow> error + Event list" where
  "seed_teaching week_start [] evs = Inr evs"
| "seed_teaching week_start (wd # wds) evs =
     (case date_add week_start wd of
        Inl err \<Rightarrow> Inl err
      | Inr d \<Rightarrow>
          seed_teaching week_start wds
            (evs @ map (\<lambda>(name, s, e, c).
                 \<lparr>ev_name = name, ev_start = combine d s, ev_end = combine d e,
                  ev_color = c, ev_kind = ''teaching''\<rparr>) (TEACHING_get wd)))"

definition initial_sched :: "Event list \<Rightarrow> sched" where
  "initial_sched evs = \<lparr>events = evs, used_days = (\<lambda>name. {}), tasks_per_day = (\<lambda>i. 0), gym_days = []\<rparr>"

definition run_engine :: "date \<Rightarrow> error + sched" where
  "run_engine week_start =
     (case seed_teaching week_start [0..6] [] of
        Inl err \<Rightarrow> Inl err
      | Inr evs \<Rightarrow> place_tasks week_start TASK_SPECS (initial_sched evs))"

definition build_events :: "date \<Rightarrow> error + Event list" where
  "build_events week_start =
     (case run_engine week_start of
        Inl err \<Rightarrow> Inl err
      | Inr st \<Rightarrow> Inr (sort_key ev_start (events st)))"

section \<open>The manual override\<close>

text \<open>
  The module pins the first event named \<^verbatim>\<open>"My System"\<close> that starts on the week's
  Monday to 1:00 PM - 2:00 PM and sorts the list again; the result is what the calendar
  renderer and the PDF exporter receive.
\<close>

definition override_target :: "date \<Rightarrow> Event \<Rightarrow> bool" where
  "override_target mon ev = (ev_name ev = ''My System'' \<and> dt_date (ev_start ev) = mon)"

definition pin :: "date \<Rightarrow> Event \<Rightarrow> Event" where
  "pin mon ev = ev\<lparr>ev_start := combine mon (time 13 0), ev_end := combine mon (time 14 0)\<rparr>"

fun manual_override :: "date \<Rightarrow> Event list \<Rightarrow> Event list" where
  "manual_override mon [] = []"
| "manual_override mon (ev # evs) =
     (if override_target mon ev then pin mon ev # evs
      else ev # manual_override mon evs)"

definition final_events :: "date \<Rightarrow> error + Event list" where
  "final_events week_start =
     (case build_events week_start of
        Inl err \<Rightarrow> Inl err
      | Inr evs \<Rightarrow> Inr (sort_key ev_start (manual_override week_start evs)))"

section \<open>Predicates used in the statements\<close>

text \<open>
  A week start is valid when the week and the day after it are dates of Python's calendar:
  the day window of Sunday ends on the following Monday.
\<close>

definition valid_week :: "date \<Rightarrow> bool" where
  "valid_week week_start = (1 \<le> week_start \<and> week_start + 7 \<le> MAXORD)"

text \<open>
  Two events are apart when one ends at least the buffer before the other starts. This is
  what \<open>can_place\<close> asks of a candidate against every event of the list, and it reads the
  same from both sides.
\<close>

definition apart :: "Event \<Rightarrow> Event \<Rightarrow> bool" where
  "apart a b = (ev_end a + BUFFER_MIN \<le> ev_start b \<or> ev_end b + BUFFER_MIN \<le> ev_start a)"

definition compatible :: "Event \<Rightarrow> Event \<Rightarrow> bool" where
  "compatible a b =
     (\<not> overlaps (ev_start a) (ev_end a) (ev_start b) (ev_end b) \<and>
      (ev_kind a = ''task'' \<or> ev_kind b = ''task'' \<longrightarrow> apart a b))"

text \<open>The event lies inside the day window of weekday \<open>wd\<close> of the week.\<close>

definition in_day_window :: "date \<Rightarrow> int \<Rightarrow> Event \<Rightarrow> bool" where
  "in_day_window week_start wd ev =
     (combine (week_start + wd) WINDOW_START \<le> ev_start ev \<and>
      ev_end ev \<le> combine (week_start + wd + 1) WINDOW_END_NEXTDAY)"

text \<open>The event a successful placement appends.\<close>

definition task_event :: "string \<Rightarrow> datetime \<Rightarrow> int \<Rightarrow> string \<Rightarrow> Event" where
  "task_event task_name start dur color =
     \<lparr>ev_name = task_name, ev_start = start, ev_end = start + dur,
      ev_color = color, ev_kind = ''task''\<rparr>"

text \<open>
  The durations for which the model is exact: multiples of a quarter of an hour from 0 to
  24 hours.
\<close>

definition quarter_hours :: "rat \<Rightarrow> bool" where
  "quarter_hours dur_hours =
     (0 \<le> dur_hours \<and> dur_hours \<le> 24 \<and> of_int \<lfloor>dur_hours * 4\<rfloor> = dur_hours * 4)"

text \<open>
  \<^verbatim>\<open>build_events\<close> with the module constant \<^verbatim>\<open>TASK_SPECS\<close> turned into a parameter:
  the same seeding, the same loops and the same final sort, run on any catalog. It is
  \<open>build_events\<close> at \<open>TASK_SPECS\<close>, and it is how a run that has to drop an occurrence
  can be written down, since the shipped catalog never does.
\<close>

definition build_events_with ::
  "(string \<times> rat \<times> int \<times> string) list \<Rightarrow> date \<Rightarrow> error + Event list" where
  "build_events_with specs week_start =
     (case seed_teaching week_start [0..6] [] of
        Inl err \<Rightarrow> Inl err
      | Inr evs \<Rightarrow>
          (case place_tasks week_start specs (initial_sched evs) of
             Inl err \<Rightarrow> Inl err
           | Inr st \<Rightarrow> Inr (sort_key ev_start (events st))))"

text \<open>
  The day-level checks of the two loops, and the bookkeeping each loop does after a
  successful placement, under names of their own: \<open>strict_skips\<close> collects the
  \<^verbatim>\<open>continue\<close> conditions of the first loop, \<open>relaxed_skips\<close> those of the second.
\<close>

definition strict_skips :: "sched \<Rightarrow> string \<Rightarrow> int \<Rightarrow> bool" where
  "strict_skips st name wd =
     (wd \<in> used_days st name \<or>
      (name = ''Opening Study'' \<and> wd \<in> used_days st ''Endgame Study'') \<or>
      (name = ''Endgame Study'' \<and> wd \<in> used_days st ''Opening Study'') \<or>
      (if 5 \<le> wd then MAX_TASKS_WEEKEND else MAX_TASKS_WEEKDAY) \<le> tasks_per_day st wd \<or>
      (name = ''Gym'' \<and> list_ex (\<lambda>gd. \<bar>wd - gd\<bar> < 2) (gym_days st)))"

definition relaxed_skips :: "sched \<Rightarrow> string \<Rightarrow> int \<Rightarrow> bool" where
  "relaxed_skips st name wd =
     (wd \<in> used_days st name \<or>
      (name = ''Opening Study'' \<and> wd \<in> used_days st ''Endgame Study'') \<or>
      (name = ''Endgame Study'' \<and> wd \<in> used_days st ''Opening Study'') \<or>
      (name = ''Gym'' \<and> list_ex (\<lambda>gd. \<bar>wd - gd\<bar> < 2) (gym_days st)))"

definition strict_update :: "sched \<Rightarrow> string \<Rightarrow> int \<Rightarrow> Event list \<Rightarrow> sched" where
  "strict_update st name wd evs =
     st\<lparr>events := evs,
        used_days := (used_days st)(name := insert wd (used_days st name)),
        tasks_per_day := (tasks_per_day st)(wd := tasks_per_day st wd + 1),
        gym_days := (if name = ''Gym'' then gym_days st @ [wd] else gym_days st)\<rparr>"

definition relaxed_update :: "sched \<Rightarrow> string \<Rightarrow> int \<Rightarrow> Event list \<Rightarrow> sched" where
  "relaxed_update st name wd evs =
     st\<lparr>events := evs,
        used_days := (used_days st)(name := insert wd (used_days st name)),
        gym_days := (if name = ''Gym'' then gym_days st @ [wd] else gym_days st)\<rparr>"

section \<open>What one placement does\<close>

lemma no_overlap_loop_iff:
  "no_overlap_loop s e evs \<longleftrightarrow> (\<forall>ev\<in>set evs. \<not> overlaps s e (ev_start ev) (ev_end ev))"
  by (induction evs) auto

lemma can_place_iff:
  "can_place evs start end' \<longleftrightarrow>
     (\<forall>ev\<in>set evs. end' + BUFFER_MIN \<le> ev_start ev \<or> ev_end ev + BUFFER_MIN \<le> start)"
  by (auto simp: can_place_def Let_def no_overlap_loop_iff overlaps_def)

lemma can_place_apart:
  "can_place evs start (start + dur) \<longleftrightarrow> (\<forall>ev\<in>set evs. apart ev (task_event n start dur c))"
  by (auto simp: can_place_iff apart_def task_event_def)

lemma first_fit_cases:
  assumes "first_fit n dur c d evs cands = (evs', ok)"
  shows "(\<not> ok \<longrightarrow> evs' = evs) \<and>
         (ok \<longrightarrow> (\<exists>start\<in>set cands.
              evs' = evs @ [task_event n start dur c] \<and>
              can_place evs start (start + dur) \<and>
              (n = ''Gym'' \<longrightarrow> dt_date start = dt_date (start + dur) \<and>
                                 dt_time (start + dur) \<le> time 21 0) \<and>
              (n = ''chessable/website tasks'' \<longrightarrow>
                                 time 21 0 \<le> dt_time start \<and> dt_date start = d)))"
  using assms
proof (induction cands)
  case Nil
  then show ?case by simp
next
  case (Cons start rest)
  show ?case
  proof (cases "first_fit n dur c d evs (start # rest) = first_fit n dur c d evs rest")
    case True
    with Cons show ?thesis by auto
  next
    case False
    then have "first_fit n dur c d evs (start # rest) = (evs @ [task_event n start dur c], True)"
      and "can_place evs start (start + dur)"
      and "n = ''Gym'' \<longrightarrow> dt_date start = dt_date (start + dur) \<and> dt_time (start + dur) \<le> time 21 0"
      and "n = ''chessable/website tasks'' \<longrightarrow> time 21 0 \<le> dt_time start \<and> dt_date start = d"
      by (auto simp: Let_def task_event_def split: if_splits)
    with Cons.prems show ?thesis by auto
  qed
qed

lemma snap_15_window_start: "snap_15 (combine d WINDOW_START) = combine d WINDOW_START"
proof -
  have "d * 1440 + 780 = 60 * (d * 24 + 13)" by simp
  then have "(d * 1440 + 780) mod 60 = 0" by (simp only: mod_mult_self1_is_0)
  then show ?thesis
    by (simp add: snap_15_def combine_def WINDOW_START_def time_def)
qed


lemma preferred_candidates_window:
  "s \<in> set (preferred_candidates d wstart wend dur ts) \<Longrightarrow> wstart \<le> s \<and> s + dur \<le> wend"
proof (induction ts)
  case Nil
  then show ?case by simp
next
  case (Cons t ts)
  define start where "start = snap_15 (combine (if WINDOW_START \<le> t then d else d + 1) t)"
  from Cons.prems have "(s = start \<and> wstart \<le> start \<and> start + dur \<le> wend)
      \<or> s \<in> set (preferred_candidates d wstart wend dur ts)"
    by (simp add: Let_def start_def split: if_split_asm)
  with Cons.IH show ?case by blast
qed

lemma full_scan_window:
  "s \<in> set (full_scan cur dur wend) \<Longrightarrow> cur \<le> s \<and> s + dur \<le> wend"
proof (induction cur dur wend rule: full_scan.induct)
  case (1 cur dur wend)
  show ?case
  proof (cases "cur + dur \<le> wend")
    case True
    then have "full_scan cur dur wend = cur # full_scan (cur + 15) dur wend"
      by (subst full_scan.simps) simp
    with "1.prems" have "s = cur \<or> s \<in> set (full_scan (cur + 15) dur wend)"
      by simp
    with "1.IH"[OF True] True show ?thesis by auto
  next
    case False
    then have "full_scan cur dur wend = []"
      by (subst full_scan.simps) simp
    with "1.prems" show ?thesis by simp
  qed
qed

lemma dedupe_subset: "set (dedupe seen cs) \<subseteq> set cs"
  by (induction cs arbitrary: seen) auto

lemma try_place_unfold:
  assumes "try_place_task_on_day ws evs n hrs c wd = Inr r"
  shows "r = first_fit n (int_trunc (hrs * 60)) c (ws + wd) evs
               (dedupe {} (preferred_candidates (ws + wd) (combine (ws + wd) WINDOW_START)
                              (combine (ws + wd + 1) WINDOW_END_NEXTDAY) (int_trunc (hrs * 60))
                              preferred_start_times
                           @ full_scan (snap_15 (combine (ws + wd) WINDOW_START))
                               (int_trunc (hrs * 60)) (combine (ws + wd + 1) WINDOW_END_NEXTDAY)))"
  using assms
  by (simp add: try_place_task_on_day_def day_window_def date_add_def Let_def
      split: if_split_asm)

lemma try_place_cases:
  assumes "try_place_task_on_day ws evs n hrs c wd = Inr (evs', ok)"
  shows "(\<not> ok \<longrightarrow> evs' = evs) \<and>
         (ok \<longrightarrow> (\<exists>start.
              evs' = evs @ [task_event n start (int_trunc (hrs * 60)) c] \<and>
              can_place evs start (start + int_trunc (hrs * 60)) \<and>
              in_day_window ws wd (task_event n start (int_trunc (hrs * 60)) c) \<and>
              (n = ''Gym'' \<longrightarrow> dt_date start = dt_date (start + int_trunc (hrs * 60)) \<and>
                                 dt_time (start + int_trunc (hrs * 60)) \<le> time 21 0) \<and>
              (n = ''chessable/website tasks'' \<longrightarrow>
                                 time 21 0 \<le> dt_time start \<and> dt_date start = ws + wd)))"
proof -
  define dur where "dur = int_trunc (hrs * 60)"
  define wstart where "wstart = combine (ws + wd) WINDOW_START"
  define wend where "wend = combine (ws + wd + 1) WINDOW_END_NEXTDAY"
  define uniq where "uniq = dedupe {} (preferred_candidates (ws + wd) wstart wend dur preferred_start_times
                                   @ full_scan (snap_15 wstart) dur wend)"
  from try_place_unfold[OF assms] have ff: "first_fit n dur c (ws + wd) evs uniq = (evs', ok)"
    by (simp add: dur_def wstart_def wend_def uniq_def)
  have win: "wstart \<le> s \<and> s + dur \<le> wend" if "s \<in> set uniq" for s
  proof -
    from that dedupe_subset have "s \<in> set (preferred_candidates (ws + wd) wstart wend dur preferred_start_times)
        \<or> s \<in> set (full_scan (snap_15 wstart) dur wend)"
      unfolding uniq_def by fastforce
    then show ?thesis
    proof
      assume "s \<in> set (preferred_candidates (ws + wd) wstart wend dur preferred_start_times)"
      then show ?thesis by (rule preferred_candidates_window)
    next
      assume "s \<in> set (full_scan (snap_15 wstart) dur wend)"
      then have "snap_15 wstart \<le> s \<and> s + dur \<le> wend" by (rule full_scan_window)
      then show ?thesis by (simp add: wstart_def snap_15_window_start)
    qed
  qed
  from first_fit_cases[OF ff] have nok: "\<not> ok \<longrightarrow> evs' = evs" by blast
  have "\<exists>start.
              evs' = evs @ [task_event n start dur c] \<and>
              can_place evs start (start + dur) \<and>
              in_day_window ws wd (task_event n start dur c) \<and>
              (n = ''Gym'' \<longrightarrow> dt_date start = dt_date (start + dur) \<and>
                                 dt_time (start + dur) \<le> time 21 0) \<and>
              (n = ''chessable/website tasks'' \<longrightarrow>
                                 time 21 0 \<le> dt_time start \<and> dt_date start = ws + wd)" if ok
  proof -
    from first_fit_cases[OF ff] that obtain start where
      st: "start \<in> set uniq" "evs' = evs @ [task_event n start dur c]"
          "can_place evs start (start + dur)"
          "n = ''Gym'' \<longrightarrow> dt_date start = dt_date (start + dur) \<and> dt_time (start + dur) \<le> time 21 0"
          "n = ''chessable/website tasks'' \<longrightarrow> time 21 0 \<le> dt_time start \<and> dt_date start = ws + wd"
      by blast
    from win[OF st(1)] have "in_day_window ws wd (task_event n start dur c)"
      by (simp add: in_day_window_def task_event_def wstart_def wend_def)
    with st show ?thesis by blast
  qed
  with nok show ?thesis unfolding dur_def by blast
qed

section \<open>What one pass and one occurrence do\<close>

lemma strict_pass_Cons:
  "strict_pass ws n hrs c (wd # wds) st =
     (if strict_skips st n wd then strict_pass ws n hrs c wds st
      else (case try_place_task_on_day ws (events st) n hrs c wd of
           Inl err \<Rightarrow> Inl err
         | Inr (evs, ok) \<Rightarrow>
             if ok then Inr (strict_update st n wd evs, True)
             else strict_pass ws n hrs c wds (st\<lparr>events := evs\<rparr>)))"
  unfolding strict_skips_def strict_update_def
  by (cases "wd \<in> used_days st n";
      cases "n = ''Opening Study'' \<and> wd \<in> used_days st ''Endgame Study''";
      cases "n = ''Endgame Study'' \<and> wd \<in> used_days st ''Opening Study''";
      cases "(if 5 \<le> wd then MAX_TASKS_WEEKEND else MAX_TASKS_WEEKDAY) \<le> tasks_per_day st wd";
      cases "n = ''Gym'' \<and> list_ex (\<lambda>gd. \<bar>wd - gd\<bar> < 2) (gym_days st)";
      auto)

lemma relaxed_pass_Cons:
  "relaxed_pass ws n hrs c (wd # wds) st =
     (if relaxed_skips st n wd then relaxed_pass ws n hrs c wds st
      else (case try_place_task_on_day ws (events st) n hrs c wd of
           Inl err \<Rightarrow> Inl err
         | Inr (evs, ok) \<Rightarrow>
             if ok then Inr (relaxed_update st n wd evs, True)
             else relaxed_pass ws n hrs c wds (st\<lparr>events := evs\<rparr>)))"
  unfolding relaxed_skips_def relaxed_update_def
  by (cases "wd \<in> used_days st n";
      cases "n = ''Opening Study'' \<and> wd \<in> used_days st ''Endgame Study''";
      cases "n = ''Endgame Study'' \<and> wd \<in> used_days st ''Opening Study''";
      cases "n = ''Gym'' \<and> list_ex (\<lambda>gd. \<bar>wd - gd\<bar> < 2) (gym_days st)";
      auto)

declare strict_pass.simps(2) [simp del] relaxed_pass.simps(2) [simp del]

lemma strict_pass_cases:
  assumes "strict_pass ws n hrs c wds st = Inr (st', ok)"
  shows "(\<not> ok \<longrightarrow> st' = st) \<and>
         (ok \<longrightarrow> (\<exists>wd evs'. wd \<in> set wds \<and> \<not> strict_skips st n wd \<and>
              try_place_task_on_day ws (events st) n hrs c wd = Inr (evs', True) \<and>
              st' = strict_update st n wd evs'))"
  using assms
proof (induction wds)
  case Nil
  then show ?case by simp
next
  case (Cons wd wds)
  show ?case
  proof (cases "strict_skips st n wd")
    case True
    with Cons.prems have "strict_pass ws n hrs c wds st = Inr (st', ok)"
      by (simp only: strict_pass_Cons if_True)
    from Cons.IH[OF this] show ?thesis by auto
  next
    case False
    with Cons.prems have p: "(case try_place_task_on_day ws (events st) n hrs c wd of
           Inl err \<Rightarrow> Inl err
         | Inr (evs, ok) \<Rightarrow>
             if ok then Inr (strict_update st n wd evs, True)
             else strict_pass ws n hrs c wds (st\<lparr>events := evs\<rparr>)) = Inr (st', ok)"
      by (simp only: strict_pass_Cons if_False)
    then obtain evs ok1 where
      tp: "try_place_task_on_day ws (events st) n hrs c wd = Inr (evs, ok1)"
      by (cases "try_place_task_on_day ws (events st) n hrs c wd") auto
    show ?thesis
    proof (cases ok1)
      case True
      with p tp have "st' = strict_update st n wd evs" "ok" by simp_all
      with tp True False show ?thesis by (intro conjI impI exI[of _ wd] exI[of _ evs]) simp_all
    next
      case nok: False
      with try_place_cases[OF tp] have "evs = events st" by simp
      with p tp nok have "strict_pass ws n hrs c wds st = Inr (st', ok)"
        by simp
      from Cons.IH[OF this] show ?thesis by auto
    qed
  qed
qed

lemma relaxed_pass_cases:
  assumes "relaxed_pass ws n hrs c wds st = Inr (st', ok)"
  shows "(\<not> ok \<longrightarrow> st' = st) \<and>
         (ok \<longrightarrow> (\<exists>wd evs'. wd \<in> set wds \<and> \<not> relaxed_skips st n wd \<and>
              try_place_task_on_day ws (events st) n hrs c wd = Inr (evs', True) \<and>
              st' = relaxed_update st n wd evs'))"
  using assms
proof (induction wds)
  case Nil
  then show ?case by simp
next
  case (Cons wd wds)
  show ?case
  proof (cases "relaxed_skips st n wd")
    case True
    with Cons.prems have "relaxed_pass ws n hrs c wds st = Inr (st', ok)"
      by (simp only: relaxed_pass_Cons if_True)
    from Cons.IH[OF this] show ?thesis by auto
  next
    case False
    with Cons.prems have p: "(case try_place_task_on_day ws (events st) n hrs c wd of
           Inl err \<Rightarrow> Inl err
         | Inr (evs, ok) \<Rightarrow>
             if ok then Inr (relaxed_update st n wd evs, True)
             else relaxed_pass ws n hrs c wds (st\<lparr>events := evs\<rparr>)) = Inr (st', ok)"
      by (simp only: relaxed_pass_Cons if_False)
    then obtain evs ok1 where
      tp: "try_place_task_on_day ws (events st) n hrs c wd = Inr (evs, ok1)"
      by (cases "try_place_task_on_day ws (events st) n hrs c wd") auto
    show ?thesis
    proof (cases ok1)
      case True
      with p tp have "st' = relaxed_update st n wd evs" "ok" by simp_all
      with tp True False show ?thesis by (intro conjI impI exI[of _ wd] exI[of _ evs]) simp_all
    next
      case nok: False
      with try_place_cases[OF tp] have "evs = events st" by simp
      with p tp nok have "relaxed_pass ws n hrs c wds st = Inr (st', ok)"
        by simp
      from Cons.IH[OF this] show ?thesis by auto
    qed
  qed
qed

lemma strict_skips_relaxed: "\<not> strict_skips st n wd \<Longrightarrow> \<not> relaxed_skips st n wd"
  by (auto simp: strict_skips_def relaxed_skips_def)

lemma not_list_ex_gym:
  "\<not> list_ex (\<lambda>gd. \<bar>wd - gd\<bar> < 2) gds \<longleftrightarrow> (\<forall>gd\<in>set gds. 2 \<le> \<bar>(wd::int) - gd\<bar>)"
  by (auto simp: list_ex_iff not_less)

lemma place_occurrence_cases:
  assumes "place_occurrence ws n hrs c st = Inr st'"
  shows "st' = st \<or>
         (\<exists>wd evs'. wd \<in> set preferred_days \<and> \<not> relaxed_skips st n wd \<and>
              try_place_task_on_day ws (events st) n hrs c wd = Inr (evs', True) \<and>
              (st' = strict_update st n wd evs' \<or> st' = relaxed_update st n wd evs'))"
proof -
  from assms obtain st1 placed where
    sp: "strict_pass ws n hrs c preferred_days st = Inr (st1, placed)"
    by (cases "strict_pass ws n hrs c preferred_days st") (auto simp: place_occurrence_def)
  show ?thesis
  proof (cases placed)
    case True
    with assms sp have "st' = st1" by (simp add: place_occurrence_def)
    with strict_pass_cases[OF sp] True strict_skips_relaxed show ?thesis by blast
  next
    case False
    with strict_pass_cases[OF sp] have st1: "st1 = st" by simp
    from assms sp False st1 obtain placed2 where
      rp: "relaxed_pass ws n hrs c preferred_days st = Inr (st', placed2)"
      by (cases "relaxed_pass ws n hrs c preferred_days st") (auto simp: place_occurrence_def)
    from relaxed_pass_cases[OF rp] show ?thesis by (cases placed2) blast+
  qed
qed

lemma place_occurrence_step:
  assumes "place_occurrence ws n hrs c st = Inr st'"
  obtains (dropped) "st' = st"
  | (placed) wd start where
      "wd \<in> set preferred_days"
      "wd \<notin> used_days st n"
      "n = ''Opening Study'' \<Longrightarrow> wd \<notin> used_days st ''Endgame Study''"
      "n = ''Endgame Study'' \<Longrightarrow> wd \<notin> used_days st ''Opening Study''"
      "n = ''Gym'' \<Longrightarrow> \<forall>gd\<in>set (gym_days st). 2 \<le> \<bar>wd - gd\<bar>"
      "can_place (events st) start (start + int_trunc (hrs * 60))"
      "in_day_window ws wd (task_event n start (int_trunc (hrs * 60)) c)"
      "n = ''Gym'' \<Longrightarrow> dt_date start = dt_date (start + int_trunc (hrs * 60)) \<and>
                         dt_time (start + int_trunc (hrs * 60)) \<le> time 21 0"
      "n = ''chessable/website tasks'' \<Longrightarrow> time 21 0 \<le> dt_time start \<and> dt_date start = ws + wd"
      "events st' = events st @ [task_event n start (int_trunc (hrs * 60)) c]"
      "used_days st' = (used_days st)(n := insert wd (used_days st n))"
      "gym_days st' = (if n = ''Gym'' then gym_days st @ [wd] else gym_days st)"
      "tasks_per_day st' = tasks_per_day st \<or>
       tasks_per_day st' = (tasks_per_day st)(wd := tasks_per_day st wd + 1)"
proof -
  from place_occurrence_cases[OF assms] consider "st' = st"
    | wd evs' where "wd \<in> set preferred_days" "\<not> relaxed_skips st n wd"
        "try_place_task_on_day ws (events st) n hrs c wd = Inr (evs', True)"
        "st' = strict_update st n wd evs' \<or> st' = relaxed_update st n wd evs'"
    by blast
  then show thesis
  proof cases
    case 1
    then show ?thesis by (rule dropped)
  next
    case 2
    from try_place_cases[OF 2(3)] obtain start where
      s: "evs' = events st @ [task_event n start (int_trunc (hrs * 60)) c]"
         "can_place (events st) start (start + int_trunc (hrs * 60))"
         "in_day_window ws wd (task_event n start (int_trunc (hrs * 60)) c)"
         "n = ''Gym'' \<longrightarrow> dt_date start = dt_date (start + int_trunc (hrs * 60)) \<and>
                         dt_time (start + int_trunc (hrs * 60)) \<le> time 21 0"
         "n = ''chessable/website tasks'' \<longrightarrow> time 21 0 \<le> dt_time start \<and> dt_date start = ws + wd"
      by auto
    from 2(2) have k: "wd \<notin> used_days st n"
      "n = ''Opening Study'' \<Longrightarrow> wd \<notin> used_days st ''Endgame Study''"
      "n = ''Endgame Study'' \<Longrightarrow> wd \<notin> used_days st ''Opening Study''"
      "n = ''Gym'' \<Longrightarrow> \<forall>gd\<in>set (gym_days st). 2 \<le> \<bar>wd - gd\<bar>"
      by (auto simp: relaxed_skips_def not_list_ex_gym)
    from 2(4) s(1) have u: "events st' = events st @ [task_event n start (int_trunc (hrs * 60)) c]"
      "used_days st' = (used_days st)(n := insert wd (used_days st n))"
      "gym_days st' = (if n = ''Gym'' then gym_days st @ [wd] else gym_days st)"
      "tasks_per_day st' = tasks_per_day st \<or>
       tasks_per_day st' = (tasks_per_day st)(wd := tasks_per_day st wd + 1)"
      by (auto simp: strict_update_def relaxed_update_def)
    show ?thesis
      using placed[OF 2(1) k(1) k(2) k(3) k(4) s(2) s(3) _ _ u(1) u(2) u(3) u(4)] s(4) s(5)
      by blast
  qed
qed

lemma place_occurrences_invariant:
  assumes "place_occurrences ws n hrs c k st = Inr st'"
    and "P st"
    and step: "\<And>s s'. P s \<Longrightarrow> place_occurrence ws n hrs c s = Inr s' \<Longrightarrow> P s'"
  shows "P st'"
  using assms(1,2)
proof (induction k arbitrary: st)
  case 0
  then show ?case by simp
next
  case (Suc k)
  from Suc.prems(1) obtain s1 where
    a: "place_occurrence ws n hrs c st = Inr s1" and b: "place_occurrences ws n hrs c k s1 = Inr st'"
    by (cases "place_occurrence ws n hrs c st") auto
  from step[OF Suc.prems(2) a] have "P s1" .
  from Suc.IH[OF b this] show ?case .
qed

lemma place_tasks_invariant:
  assumes "place_tasks ws specs st = Inr st'"
    and "P st"
    and step: "\<And>n hrs cnt c s s'. (n, hrs, cnt, c) \<in> set specs \<Longrightarrow> P s \<Longrightarrow>
                 place_occurrence ws n hrs c s = Inr s' \<Longrightarrow> P s'"
  shows "P st'"
  using assms
proof (induction specs arbitrary: st)
  case Nil
  then show ?case by simp
next
  case (Cons sp specs)
  obtain n hrs cnt c where sp: "sp = (n, hrs, cnt, c)" by (cases sp) auto
  from Cons.prems(1) sp obtain s1 where
    a: "place_occurrences ws n hrs c (nat cnt) st = Inr s1" and b: "place_tasks ws specs s1 = Inr st'"
    by (cases "place_occurrences ws n hrs c (nat cnt) st") auto
  have "P s1"
  proof (rule place_occurrences_invariant[where P = P, OF a Cons.prems(2)])
    fix s s' assume "P s" "place_occurrence ws n hrs c s = Inr s'"
    then show "P s'" using Cons.prems(3)[of n hrs cnt c s s'] by (simp add: sp)
  qed
  show ?case
  proof (rule Cons.IH[OF b \<open>P s1\<close>])
    fix n hrs cnt c s s'
    assume "(n, hrs, cnt, c) \<in> set specs" "P s" "place_occurrence ws n hrs c s = Inr s'"
    then show "P s'" using Cons.prems(3)[of n hrs cnt c s s'] by simp
  qed
qed

section \<open>A valid week never raises\<close>

lemma range7: "[0..6] = [0, 1, 2, 3, 4, 5, 6::int]"
  by code_simp

lemma date_add_Inr: "date_add d k = Inr d' \<Longrightarrow> d' = d + k"
  by (simp add: date_add_def split: if_split_asm)

lemma date_add_valid:
  "valid_week ws \<Longrightarrow> 0 \<le> wd \<Longrightarrow> wd \<le> 6 \<Longrightarrow> date_add ws wd = Inr (ws + wd)"
  by (simp add: date_add_def valid_week_def)

lemma day_window_valid:
  "valid_week ws \<Longrightarrow> 0 \<le> wd \<Longrightarrow> wd \<le> 6 \<Longrightarrow>
   day_window (ws + wd) = Inr (combine (ws + wd) WINDOW_START, combine (ws + wd + 1) WINDOW_END_NEXTDAY)"
  by (simp add: day_window_def date_add_def valid_week_def)

lemma try_place_total:
  assumes "valid_week ws" "0 \<le> wd" "wd \<le> 6"
  shows "\<exists>evs' ok. try_place_task_on_day ws evs n hrs c wd = Inr (evs', ok)"
proof -
  have "\<exists>r. try_place_task_on_day ws evs n hrs c wd = Inr r"
    by (simp add: try_place_task_on_day_def date_add_valid[OF assms] day_window_valid[OF assms] Let_def)
  then show ?thesis by auto
qed

lemma strict_pass_total:
  assumes "valid_week ws" "\<forall>wd\<in>set wds. 0 \<le> wd \<and> wd \<le> 6"
  shows "\<exists>st' ok. strict_pass ws n hrs c wds st = Inr (st', ok)"
  using assms(2)
proof (induction wds)
  case Nil
  show ?case by auto
next
  case (Cons wd wds)
  then have IH: "\<exists>st' ok. strict_pass ws n hrs c wds st = Inr (st', ok)" by simp
  from Cons.prems have "0 \<le> wd" "wd \<le> 6" by simp_all
  from try_place_total[OF assms(1) this] obtain evs ok1 where
    tp: "try_place_task_on_day ws (events st) n hrs c wd = Inr (evs, ok1)" by blast
  show ?case
  proof (cases "strict_skips st n wd")
    case True
    with IH show ?thesis by (simp add: strict_pass_Cons)
  next
    case False
    show ?thesis
    proof (cases ok1)
      case True
      with False tp show ?thesis by (auto simp: strict_pass_Cons)
    next
      case nok: False
      with try_place_cases[OF tp] have "evs = events st" by simp
      with False tp nok IH show ?thesis by (simp add: strict_pass_Cons)
    qed
  qed
qed

lemma relaxed_pass_total:
  assumes "valid_week ws" "\<forall>wd\<in>set wds. 0 \<le> wd \<and> wd \<le> 6"
  shows "\<exists>st' ok. relaxed_pass ws n hrs c wds st = Inr (st', ok)"
  using assms(2)
proof (induction wds)
  case Nil
  show ?case by auto
next
  case (Cons wd wds)
  then have IH: "\<exists>st' ok. relaxed_pass ws n hrs c wds st = Inr (st', ok)" by simp
  from Cons.prems have "0 \<le> wd" "wd \<le> 6" by simp_all
  from try_place_total[OF assms(1) this] obtain evs ok1 where
    tp: "try_place_task_on_day ws (events st) n hrs c wd = Inr (evs, ok1)" by blast
  show ?case
  proof (cases "relaxed_skips st n wd")
    case True
    with IH show ?thesis by (simp add: relaxed_pass_Cons)
  next
    case False
    show ?thesis
    proof (cases ok1)
      case True
      with False tp show ?thesis by (auto simp: relaxed_pass_Cons)
    next
      case nok: False
      with try_place_cases[OF tp] have "evs = events st" by simp
      with False tp nok IH show ?thesis by (simp add: relaxed_pass_Cons)
    qed
  qed
qed

lemma preferred_days_range: "\<forall>wd\<in>set preferred_days. 0 \<le> wd \<and> wd \<le> 6"
  by (simp add: preferred_days_def)

lemma place_occurrence_total:
  assumes "valid_week ws"
  shows "\<exists>st'. place_occurrence ws n hrs c st = Inr st'"
proof -
  from strict_pass_total[OF assms preferred_days_range] obtain st1 placed where
    sp: "strict_pass ws n hrs c preferred_days st = Inr (st1, placed)" by blast
  from relaxed_pass_total[OF assms preferred_days_range] obtain st2 placed2 where
    rp: "relaxed_pass ws n hrs c preferred_days st1 = Inr (st2, placed2)" by blast
  show ?thesis by (simp add: place_occurrence_def sp rp)
qed

lemma place_occurrences_total:
  assumes "valid_week ws"
  shows "\<exists>st'. place_occurrences ws n hrs c k st = Inr st'"
proof (induction k arbitrary: st)
  case 0
  show ?case by simp
next
  case (Suc k)
  from place_occurrence_total[OF assms] obtain s1 where
    "place_occurrence ws n hrs c st = Inr s1" by blast
  with Suc[of s1] show ?case by simp
qed

lemma place_tasks_total:
  assumes "valid_week ws"
  shows "\<exists>st'. place_tasks ws specs st = Inr st'"
proof (induction specs arbitrary: st)
  case Nil
  show ?case by simp
next
  case (Cons sp specs)
  obtain n hrs cnt c where sp: "sp = (n, hrs, cnt, c)" by (cases sp) auto
  from place_occurrences_total[OF assms] obtain s1 where
    "place_occurrences ws n hrs c (nat cnt) st = Inr s1" by blast
  with Cons[of s1] sp show ?case by simp
qed

lemma seed_teaching_append:
  "seed_teaching ws wds acc = Inr evs \<Longrightarrow>
   evs = acc @ concat (map (\<lambda>wd. map (\<lambda>(name, s, e, c).
                 \<lparr>ev_name = name, ev_start = combine (ws + wd) s, ev_end = combine (ws + wd) e,
                  ev_color = c, ev_kind = ''teaching''\<rparr>) (TEACHING_get wd)) wds)"
proof (induction wds arbitrary: acc)
  case Nil
  then show ?case by simp
next
  case (Cons wd wds)
  from Cons.prems obtain d where d: "date_add ws wd = Inr d"
    by (cases "date_add ws wd") auto
  with date_add_Inr have "d = ws + wd" by blast
  with Cons.prems d have "seed_teaching ws wds (acc @ map (\<lambda>(name, s, e, c).
                 \<lparr>ev_name = name, ev_start = combine (ws + wd) s, ev_end = combine (ws + wd) e,
                  ev_color = c, ev_kind = ''teaching''\<rparr>) (TEACHING_get wd)) = Inr evs"
    by simp
  from Cons.IH[OF this] show ?case by simp
qed

lemma seed_teaching_total:
  assumes "valid_week ws" "\<forall>wd\<in>set wds. 0 \<le> wd \<and> wd \<le> 6"
  shows "\<exists>evs. seed_teaching ws wds acc = Inr evs"
  using assms(2)
proof (induction wds arbitrary: acc)
  case Nil
  show ?case by simp
next
  case (Cons wd wds)
  then have "date_add ws wd = Inr (ws + wd)" using date_add_valid[OF assms(1)] by simp
  with Cons show ?case by simp
qed

lemma run_engine_total:
  assumes "valid_week ws"
  shows "\<exists>st. run_engine ws = Inr st"
proof -
  have "\<forall>wd\<in>set [0..6::int]. 0 \<le> wd \<and> wd \<le> 6" by simp
  from seed_teaching_total[OF assms this] obtain evs where
    "seed_teaching ws [0..6] [] = Inr evs" by blast
  with place_tasks_total[OF assms] show ?thesis by (simp add: run_engine_def)
qed

lemma build_events_total:
  assumes "valid_week ws"
  shows "\<exists>evs. build_events ws = Inr evs"
  using run_engine_total[OF assms] by (auto simp: build_events_def)

lemma final_events_total:
  assumes "valid_week ws"
  shows "\<exists>evs. final_events ws = Inr evs"
  using build_events_total[OF assms] by (auto simp: final_events_def)

lemma valid_week_example: "valid_week 738886"
  by (simp add: valid_week_def MAXORD_def)

section \<open>The seeded teaching events\<close>

lemma seed_teaching_events:
  assumes "seed_teaching ws [0..6] [] = Inr evs"
  shows "evs =
    [\<lparr>ev_name = ''Beginner Class'', ev_start = combine (ws + 0) (time 17 0),
        ev_end = combine (ws + 0) (time 18 0), ev_color = ''#a855f7'', ev_kind = ''teaching''\<rparr>,
     \<lparr>ev_name = ''Leo Mootoo'', ev_start = combine (ws + 0) (time 18 15),
        ev_end = combine (ws + 0) (time 19 15), ev_color = ''#ef4444'', ev_kind = ''teaching''\<rparr>,
     \<lparr>ev_name = ''Pranava Classes'', ev_start = combine (ws + 1) (time 13 30),
        ev_end = combine (ws + 1) (time 17 30), ev_color = ''#14b8a6'', ev_kind = ''teaching''\<rparr>,
     \<lparr>ev_name = ''Advanced Class'', ev_start = combine (ws + 1) (time 18 30),
        ev_end = combine (ws + 1) (time 19 30), ev_color = ''#3b82f6'', ev_kind = ''teaching''\<rparr>,
     \<lparr>ev_name = ''Jaydon'', ev_start = combine (ws + 2) (time 18 30),
        ev_end = combine (ws + 2) (time 19 30), ev_color = ''#f97316'', ev_kind = ''teaching''\<rparr>,
     \<lparr>ev_name = ''Beginner Class'', ev_start = combine (ws + 3) (time 17 0),
        ev_end = combine (ws + 3) (time 18 0), ev_color = ''#a855f7'', ev_kind = ''teaching''\<rparr>,
     \<lparr>ev_name = ''Leo Mootoo'', ev_start = combine (ws + 4) (time 17 0),
        ev_end = combine (ws + 4) (time 18 0), ev_color = ''#ef4444'', ev_kind = ''teaching''\<rparr>,
     \<lparr>ev_name = ''Amrit'', ev_start = combine (ws + 6) (time 19 0),
        ev_end = combine (ws + 6) (time 20 0), ev_color = ''#84cc16'', ev_kind = ''teaching''\<rparr>]"
  using seed_teaching_append[OF assms]
  by (simp add: range7 TEACHING_get_def TEACHING_def)

lemma seed_teaching_kind:
  assumes "seed_teaching ws [0..6] [] = Inr evs"
  shows "\<forall>e\<in>set evs. ev_kind e = ''teaching'' \<and>
           ev_name e \<in> {''Beginner Class'', ''Leo Mootoo'', ''Pranava Classes'', ''Advanced Class'',
                         ''Jaydon'', ''Amrit''}"
  unfolding seed_teaching_events[OF assms] by simp

section \<open>Events never overlap\<close>

lemma compatible_sym: "compatible a b \<Longrightarrow> compatible b a"
  by (auto simp: compatible_def overlaps_def apart_def)

lemma apart_no_overlap:
  "apart a b \<Longrightarrow> \<not> overlaps (ev_start a) (ev_end a) (ev_start b) (ev_end b)"
  by (auto simp: apart_def overlaps_def BUFFER_MIN_def)

lemma sorted_wrt_insort_key_sym:
  assumes "\<And>a b. R a b \<Longrightarrow> R b a"
  shows "sorted_wrt R (insort_key f x xs) \<longleftrightarrow> (\<forall>y\<in>set xs. R x y) \<and> sorted_wrt R xs"
  using assms by (induction xs) (auto simp: set_insort_key)

lemma sorted_wrt_sort_key_sym:
  assumes "\<And>a b. R a b \<Longrightarrow> R b a" "sorted_wrt R xs"
  shows "sorted_wrt R (sort_key f xs)"
  using assms(2)
proof (induction xs)
  case Nil
  show ?case by simp
next
  case (Cons x xs)
  then have "sorted_wrt R (sort_key f xs)" "\<forall>y\<in>set xs. R x y" by simp_all
  then show ?case
    by (simp add: sort_key_def[symmetric] sorted_wrt_insort_key_sym[of R, OF assms(1)])
qed

lemma seed_conflict_free:
  assumes "seed_teaching ws [0..6] [] = Inr evs"
  shows "(\<forall>e\<in>set evs. ev_start e < ev_end e) \<and> sorted_wrt compatible evs"
  unfolding seed_teaching_events[OF assms]
  by (simp add: compatible_def overlaps_def combine_def time_def)

lemma task_specs_positive:
  "(n, hrs, cnt, c) \<in> set TASK_SPECS \<Longrightarrow> 0 < int_trunc (hrs * 60)"
  by (auto simp: TASK_SPECS_def int_trunc_def)

lemma place_occurrence_conflict_free:
  assumes "place_occurrence ws n hrs c st = Inr st'"
    and "0 < int_trunc (hrs * 60)"
    and "(\<forall>e\<in>set (events st). ev_start e < ev_end e) \<and> sorted_wrt compatible (events st)"
  shows "(\<forall>e\<in>set (events st'). ev_start e < ev_end e) \<and> sorted_wrt compatible (events st')"
  using assms(1)
proof (cases rule: place_occurrence_step)
  case dropped
  with assms(3) show ?thesis by simp
next
  case (placed wd start)
  let ?new = "task_event n start (int_trunc (hrs * 60)) c"
  from placed(6) have ap: "\<forall>ev\<in>set (events st). apart ev ?new"
    by (simp add: can_place_apart[of _ _ _ n c])
  then have "\<forall>ev\<in>set (events st). compatible ev ?new"
    using apart_no_overlap by (auto simp: compatible_def)
  moreover from assms(2) have "ev_start ?new < ev_end ?new" by (simp add: task_event_def)
  ultimately show ?thesis using assms(3) placed(10) by (auto simp: sorted_wrt_append)
qed

lemma run_engine_invariant:
  assumes "run_engine ws = Inr st"
    and init: "\<And>evs. seed_teaching ws [0..6] [] = Inr evs \<Longrightarrow> P (initial_sched evs)"
    and step: "\<And>n hrs cnt c s s'. (n, hrs, cnt, c) \<in> set TASK_SPECS \<Longrightarrow> P s \<Longrightarrow>
                 place_occurrence ws n hrs c s = Inr s' \<Longrightarrow> P s'"
  shows "P st"
proof -
  from assms(1) obtain evs where
    a: "seed_teaching ws [0..6] [] = Inr evs" and
    b: "place_tasks ws TASK_SPECS (initial_sched evs) = Inr st"
    by (cases "seed_teaching ws [0..6] []") (auto simp: run_engine_def)
  show ?thesis
    by (rule place_tasks_invariant[where P = P, OF b init[OF a]]) (rule step)
qed

lemma run_engine_conflict_free:
  assumes "run_engine ws = Inr st"
  shows "(\<forall>e\<in>set (events st). ev_start e < ev_end e) \<and> sorted_wrt compatible (events st)"
proof (rule run_engine_invariant[OF assms])
  fix evs assume "seed_teaching ws [0..6] [] = Inr evs"
  from seed_conflict_free[OF this]
  show "(\<forall>e\<in>set (events (initial_sched evs)). ev_start e < ev_end e) \<and>
        sorted_wrt compatible (events (initial_sched evs))"
    by (simp add: initial_sched_def)
next
  fix n hrs cnt c s s'
  assume "(n, hrs, cnt, c) \<in> set TASK_SPECS"
    and "(\<forall>e\<in>set (events s). ev_start e < ev_end e) \<and> sorted_wrt compatible (events s)"
    and "place_occurrence ws n hrs c s = Inr s'"
  then show "(\<forall>e\<in>set (events s'). ev_start e < ev_end e) \<and> sorted_wrt compatible (events s')"
    using place_occurrence_conflict_free task_specs_positive by blast
qed

lemma build_events_run:
  assumes "build_events ws = Inr evs"
  obtains st where "run_engine ws = Inr st" "evs = sort_key ev_start (events st)"
  using assms by (cases "run_engine ws") (auto simp: build_events_def)

lemma build_events_conflict_free:
  assumes "build_events ws = Inr evs"
  shows "(\<forall>e\<in>set evs. ev_start e < ev_end e) \<and> sorted_wrt compatible evs"
proof -
  from assms obtain st where st: "run_engine ws = Inr st" "evs = sort_key ev_start (events st)"
    by (rule build_events_run)
  from run_engine_conflict_free[OF st(1)] st(2) show ?thesis
    by (simp add: sorted_wrt_sort_key_sym[of compatible, OF compatible_sym])
qed

lemma first_placement_example:
  "(case seed_teaching 738886 [0..6] [] of
      Inl err \<Rightarrow> False
    | Inr seed \<Rightarrow>
        try_place_task_on_day 738886 seed ''My System'' 1 ''#8b5cf6'' 0 =
          Inr (seed @ [task_event ''My System'' (combine 738886 (time 22 0)) 60 ''#8b5cf6''], True))"
  by code_simp

section \<open>Which events a run holds\<close>

lemma used_days_grow:
  assumes "place_occurrence ws n hrs c st = Inr st'"
  shows "used_days st m \<subseteq> used_days st' m"
  using assms
proof (cases rule: place_occurrence_step)
  case dropped
  then show ?thesis by simp
next
  case (placed wd start)
  from placed(11) show ?thesis by auto
qed

lemma place_occurrence_kinds:
  assumes "place_occurrence ws n hrs c st = Inr st'"
    and "\<forall>e\<in>set (events st). ev_kind e = ''task'' \<or> ev_name e \<in> T"
  shows "\<forall>e\<in>set (events st'). ev_kind e = ''task'' \<or> ev_name e \<in> T"
  using assms(1)
proof (cases rule: place_occurrence_step)
  case dropped
  with assms(2) show ?thesis by simp
next
  case (placed wd start)
  from placed(10) assms(2) show ?thesis by (auto simp: task_event_def)
qed

lemma run_engine_kinds:
  assumes "run_engine ws = Inr st"
  shows "\<forall>e\<in>set (events st). ev_kind e = ''task'' \<or>
           ev_name e \<in> {''Beginner Class'', ''Leo Mootoo'', ''Pranava Classes'', ''Advanced Class'',
                         ''Jaydon'', ''Amrit''}"
proof (rule run_engine_invariant[OF assms])
  fix evs assume "seed_teaching ws [0..6] [] = Inr evs"
  from seed_teaching_kind[OF this]
  show "\<forall>e\<in>set (events (initial_sched evs)). ev_kind e = ''task'' \<or>
           ev_name e \<in> {''Beginner Class'', ''Leo Mootoo'', ''Pranava Classes'', ''Advanced Class'',
                         ''Jaydon'', ''Amrit''}"
    by (simp add: initial_sched_def)
next
  fix n hrs cnt c s s'
  assume "(n, hrs, cnt, c) \<in> set TASK_SPECS"
    and "\<forall>e\<in>set (events s). ev_kind e = ''task'' \<or>
           ev_name e \<in> {''Beginner Class'', ''Leo Mootoo'', ''Pranava Classes'', ''Advanced Class'',
                         ''Jaydon'', ''Amrit''}"
    and "place_occurrence ws n hrs c s = Inr s'"
  then show "\<forall>e\<in>set (events s'). ev_kind e = ''task'' \<or>
           ev_name e \<in> {''Beginner Class'', ''Leo Mootoo'', ''Pranava Classes'', ''Advanced Class'',
                         ''Jaydon'', ''Amrit''}"
    using place_occurrence_kinds by blast
qed

text \<open>Every task event lies in the day window of a weekday its task has recorded as used.\<close>

lemma place_occurrence_assigned:
  assumes "place_occurrence ws n hrs c st = Inr st'"
    and "\<forall>e\<in>set (events st). ev_kind e = ''task'' \<longrightarrow>
            (\<exists>wd\<in>used_days st (ev_name e). in_day_window ws wd e)"
  shows "\<forall>e\<in>set (events st'). ev_kind e = ''task'' \<longrightarrow>
            (\<exists>wd\<in>used_days st' (ev_name e). in_day_window ws wd e)"
  using assms(1)
proof (cases rule: place_occurrence_step)
  case dropped
  with assms(2) show ?thesis by simp
next
  case (placed wd start)
  let ?new = "task_event n start (int_trunc (hrs * 60)) c"
  have old: "\<exists>wd\<in>used_days st' (ev_name e). in_day_window ws wd e"
    if "e \<in> set (events st)" "ev_kind e = ''task''" for e
  proof -
    from assms(2) that obtain w where "w \<in> used_days st (ev_name e)" "in_day_window ws w e"
      by blast
    with used_days_grow[OF assms(1)] show ?thesis by blast
  qed
  have new: "\<exists>wd\<in>used_days st' (ev_name ?new). in_day_window ws wd ?new"
    using placed(7) placed(11) by (auto simp: task_event_def)
  from old new placed(10) show ?thesis by auto
qed

lemma run_engine_assigned:
  assumes "run_engine ws = Inr st"
  shows "\<forall>e\<in>set (events st). ev_kind e = ''task'' \<longrightarrow>
            (\<exists>wd\<in>used_days st (ev_name e). in_day_window ws wd e)"
proof (rule run_engine_invariant[OF assms])
  fix evs assume "seed_teaching ws [0..6] [] = Inr evs"
  from seed_teaching_kind[OF this]
  show "\<forall>e\<in>set (events (initial_sched evs)). ev_kind e = ''task'' \<longrightarrow>
            (\<exists>wd\<in>used_days (initial_sched evs) (ev_name e). in_day_window ws wd e)"
    by (simp add: initial_sched_def)
next
  fix n hrs cnt c s s'
  assume "(n, hrs, cnt, c) \<in> set TASK_SPECS"
    and "\<forall>e\<in>set (events s). ev_kind e = ''task'' \<longrightarrow>
            (\<exists>wd\<in>used_days s (ev_name e). in_day_window ws wd e)"
    and "place_occurrence ws n hrs c s = Inr s'"
  then show "\<forall>e\<in>set (events s'). ev_kind e = ''task'' \<longrightarrow>
            (\<exists>wd\<in>used_days s' (ev_name e). in_day_window ws wd e)"
    using place_occurrence_assigned by blast
qed

section \<open>Gym\<close>

lemma place_occurrence_gym_events:
  assumes "place_occurrence ws n hrs c st = Inr st'"
    and "\<forall>e\<in>set (events st). ev_kind e = ''task'' \<and> ev_name e = ''Gym'' \<longrightarrow>
            dt_date (ev_end e) = dt_date (ev_start e) \<and> dt_time (ev_end e) \<le> time 21 0"
  shows "\<forall>e\<in>set (events st'). ev_kind e = ''task'' \<and> ev_name e = ''Gym'' \<longrightarrow>
            dt_date (ev_end e) = dt_date (ev_start e) \<and> dt_time (ev_end e) \<le> time 21 0"
  using assms(1)
proof (cases rule: place_occurrence_step)
  case dropped
  with assms(2) show ?thesis by simp
next
  case (placed wd start)
  from placed(8) placed(10) assms(2) show ?thesis by (auto simp: task_event_def)
qed

lemma place_occurrence_gym_days:
  assumes "place_occurrence ws n hrs c st = Inr st'"
    and "sorted_wrt (\<lambda>a b. 2 \<le> \<bar>a - b\<bar>) (gym_days st) \<and> set (gym_days st) = used_days st ''Gym''"
  shows "sorted_wrt (\<lambda>a b. 2 \<le> \<bar>a - b\<bar>) (gym_days st') \<and> set (gym_days st') = used_days st' ''Gym''"
  using assms(1)
proof (cases rule: place_occurrence_step)
  case dropped
  with assms(2) show ?thesis by simp
next
  case (placed wd start)
  show ?thesis
  proof (cases "n = ''Gym''")
    case True
    from placed(5)[OF True] have "\<forall>gd\<in>set (gym_days st). 2 \<le> \<bar>gd - wd\<bar>"
      by (simp add: abs_minus_commute)
    with assms(2) placed(11) placed(12) True show ?thesis
      by (simp add: sorted_wrt_append)
  next
    case False
    with assms(2) placed(11) placed(12) show ?thesis by simp
  qed
qed

lemma run_engine_gym_events:
  assumes "run_engine ws = Inr st"
  shows "\<forall>e\<in>set (events st). ev_kind e = ''task'' \<and> ev_name e = ''Gym'' \<longrightarrow>
            dt_date (ev_end e) = dt_date (ev_start e) \<and> dt_time (ev_end e) \<le> time 21 0"
proof (rule run_engine_invariant[OF assms])
  fix evs assume "seed_teaching ws [0..6] [] = Inr evs"
  from seed_teaching_kind[OF this]
  show "\<forall>e\<in>set (events (initial_sched evs)). ev_kind e = ''task'' \<and> ev_name e = ''Gym'' \<longrightarrow>
            dt_date (ev_end e) = dt_date (ev_start e) \<and> dt_time (ev_end e) \<le> time 21 0"
    by (simp add: initial_sched_def)
next
  fix n hrs cnt c s s'
  assume "(n, hrs, cnt, c) \<in> set TASK_SPECS"
    and "\<forall>e\<in>set (events s). ev_kind e = ''task'' \<and> ev_name e = ''Gym'' \<longrightarrow>
            dt_date (ev_end e) = dt_date (ev_start e) \<and> dt_time (ev_end e) \<le> time 21 0"
    and "place_occurrence ws n hrs c s = Inr s'"
  then show "\<forall>e\<in>set (events s'). ev_kind e = ''task'' \<and> ev_name e = ''Gym'' \<longrightarrow>
            dt_date (ev_end e) = dt_date (ev_start e) \<and> dt_time (ev_end e) \<le> time 21 0"
    using place_occurrence_gym_events by blast
qed

lemma run_engine_gym_days:
  assumes "run_engine ws = Inr st"
  shows "sorted_wrt (\<lambda>a b. 2 \<le> \<bar>a - b\<bar>) (gym_days st) \<and> set (gym_days st) = used_days st ''Gym''"
proof (rule run_engine_invariant[OF assms])
  fix evs :: "Event list"
  show "sorted_wrt (\<lambda>a b. 2 \<le> \<bar>a - b\<bar>) (gym_days (initial_sched evs)) \<and>
        set (gym_days (initial_sched evs)) = used_days (initial_sched evs) ''Gym''"
    by (simp add: initial_sched_def)
next
  fix n hrs cnt c s s'
  assume "(n, hrs, cnt, c) \<in> set TASK_SPECS"
    and "sorted_wrt (\<lambda>a b. 2 \<le> \<bar>a - b\<bar>) (gym_days s) \<and> set (gym_days s) = used_days s ''Gym''"
    and "place_occurrence ws n hrs c s = Inr s'"
  then show "sorted_wrt (\<lambda>a b. 2 \<le> \<bar>a - b\<bar>) (gym_days s') \<and> set (gym_days s') = used_days s' ''Gym''"
    using place_occurrence_gym_days by blast
qed

section \<open>chessable/website tasks\<close>

lemma place_occurrence_chessable:
  assumes "place_occurrence ws n hrs c st = Inr st'"
    and "\<forall>e\<in>set (events st). ev_kind e = ''task'' \<and> ev_name e = ''chessable/website tasks'' \<longrightarrow>
            time 21 0 \<le> dt_time (ev_start e) \<and>
            dt_date (ev_start e) - ws \<in> used_days st ''chessable/website tasks''"
  shows "\<forall>e\<in>set (events st'). ev_kind e = ''task'' \<and> ev_name e = ''chessable/website tasks'' \<longrightarrow>
            time 21 0 \<le> dt_time (ev_start e) \<and>
            dt_date (ev_start e) - ws \<in> used_days st' ''chessable/website tasks''"
  using assms(1)
proof (cases rule: place_occurrence_step)
  case dropped
  with assms(2) show ?thesis by simp
next
  case (placed wd start)
  let ?new = "task_event n start (int_trunc (hrs * 60)) c"
  have old: "time 21 0 \<le> dt_time (ev_start e) \<and>
            dt_date (ev_start e) - ws \<in> used_days st' ''chessable/website tasks''"
    if "e \<in> set (events st)" "ev_kind e = ''task''" "ev_name e = ''chessable/website tasks''" for e
    using assms(2) that used_days_grow[OF assms(1), of "''chessable/website tasks''"] by blast
  have new: "time 21 0 \<le> dt_time (ev_start ?new) \<and>
            dt_date (ev_start ?new) - ws \<in> used_days st' ''chessable/website tasks''"
    if "ev_name ?new = ''chessable/website tasks''"
  proof -
    from that have n: "n = ''chessable/website tasks''" by (simp add: task_event_def)
    from placed(9)[OF n] placed(11) n show ?thesis by (simp add: task_event_def)
  qed
  from old new placed(10) show ?thesis by auto
qed

lemma run_engine_chessable:
  assumes "run_engine ws = Inr st"
  shows "\<forall>e\<in>set (events st). ev_kind e = ''task'' \<and> ev_name e = ''chessable/website tasks'' \<longrightarrow>
            time 21 0 \<le> dt_time (ev_start e) \<and>
            dt_date (ev_start e) - ws \<in> used_days st ''chessable/website tasks''"
proof (rule run_engine_invariant[OF assms])
  fix evs assume "seed_teaching ws [0..6] [] = Inr evs"
  from seed_teaching_kind[OF this]
  show "\<forall>e\<in>set (events (initial_sched evs)).
          ev_kind e = ''task'' \<and> ev_name e = ''chessable/website tasks'' \<longrightarrow>
            time 21 0 \<le> dt_time (ev_start e) \<and>
            dt_date (ev_start e) - ws \<in> used_days (initial_sched evs) ''chessable/website tasks''"
    by (simp add: initial_sched_def)
next
  fix n hrs cnt c s s'
  assume "(n, hrs, cnt, c) \<in> set TASK_SPECS"
    and "\<forall>e\<in>set (events s). ev_kind e = ''task'' \<and> ev_name e = ''chessable/website tasks'' \<longrightarrow>
            time 21 0 \<le> dt_time (ev_start e) \<and>
            dt_date (ev_start e) - ws \<in> used_days s ''chessable/website tasks''"
    and "place_occurrence ws n hrs c s = Inr s'"
  then show "\<forall>e\<in>set (events s'). ev_kind e = ''task'' \<and> ev_name e = ''chessable/website tasks'' \<longrightarrow>
            time 21 0 \<le> dt_time (ev_start e) \<and>
            dt_date (ev_start e) - ws \<in> used_days s' ''chessable/website tasks''"
    using place_occurrence_chessable by blast
qed

section \<open>Opening Study and Endgame Study\<close>

lemma place_occurrence_exclusive:
  assumes "place_occurrence ws n hrs c st = Inr st'"
    and "used_days st ''Opening Study'' \<inter> used_days st ''Endgame Study'' = {}"
  shows "used_days st' ''Opening Study'' \<inter> used_days st' ''Endgame Study'' = {}"
  using assms(1)
proof (cases rule: place_occurrence_step)
  case dropped
  with assms(2) show ?thesis by simp
next
  case (placed wd start)
  consider "n = ''Opening Study''" | "n = ''Endgame Study''"
    | "n \<noteq> ''Opening Study''" "n \<noteq> ''Endgame Study''" by blast
  then show ?thesis
  proof cases
    case 1
    with placed(3)[OF 1] placed(11) assms(2) show ?thesis by simp
  next
    case 2
    with placed(4)[OF 2] placed(11) assms(2) show ?thesis by simp
  next
    case 3
    with placed(11) assms(2) show ?thesis by simp
  qed
qed

lemma run_engine_exclusive:
  assumes "run_engine ws = Inr st"
  shows "used_days st ''Opening Study'' \<inter> used_days st ''Endgame Study'' = {}"
proof (rule run_engine_invariant[OF assms])
  fix evs :: "Event list"
  show "used_days (initial_sched evs) ''Opening Study'' \<inter>
        used_days (initial_sched evs) ''Endgame Study'' = {}"
    by (simp add: initial_sched_def)
next
  fix n hrs cnt c s s'
  assume "(n, hrs, cnt, c) \<in> set TASK_SPECS"
    and "used_days s ''Opening Study'' \<inter> used_days s ''Endgame Study'' = {}"
    and "place_occurrence ws n hrs c s = Inr s'"
  then show "used_days s' ''Opening Study'' \<inter> used_days s' ''Endgame Study'' = {}"
    using place_occurrence_exclusive by blast
qed

section \<open>How many events a task gets\<close>

lemma place_occurrence_count:
  assumes "place_occurrence ws n hrs c st = Inr st'"
  shows "length (filter (\<lambda>e. ev_kind e = ''task'' \<and> ev_name e = m) (events st'))
           \<le> length (filter (\<lambda>e. ev_kind e = ''task'' \<and> ev_name e = m) (events st))
               + (if n = m then 1 else 0)"
  using assms
proof (cases rule: place_occurrence_step)
  case dropped
  then show ?thesis by simp
next
  case (placed wd start)
  from placed(10) show ?thesis by (simp add: task_event_def)
qed

lemma place_occurrences_count:
  assumes "place_occurrences ws n hrs c k st = Inr st'"
  shows "length (filter (\<lambda>e. ev_kind e = ''task'' \<and> ev_name e = m) (events st'))
           \<le> length (filter (\<lambda>e. ev_kind e = ''task'' \<and> ev_name e = m) (events st))
               + (if n = m then k else 0)"
  using assms
proof (induction k arbitrary: st)
  case 0
  then show ?case by simp
next
  case (Suc k)
  from Suc.prems obtain s1 where
    a: "place_occurrence ws n hrs c st = Inr s1" and b: "place_occurrences ws n hrs c k s1 = Inr st'"
    by (cases "place_occurrence ws n hrs c st") auto
  from place_occurrence_count[OF a, of m] Suc.IH[OF b] show ?case
    by (simp split: if_split_asm)
qed

lemma place_tasks_count:
  assumes "place_tasks ws specs st = Inr st'"
  shows "length (filter (\<lambda>e. ev_kind e = ''task'' \<and> ev_name e = m) (events st'))
           \<le> length (filter (\<lambda>e. ev_kind e = ''task'' \<and> ev_name e = m) (events st))
               + sum_list (map (\<lambda>(n, hrs, cnt, c). if n = m then nat cnt else 0) specs)"
  using assms
proof (induction specs arbitrary: st)
  case Nil
  then show ?case by simp
next
  case (Cons sp specs)
  obtain n hrs cnt c where sp: "sp = (n, hrs, cnt, c)" by (cases sp) auto
  from Cons.prems sp obtain s1 where
    a: "place_occurrences ws n hrs c (nat cnt) st = Inr s1" and b: "place_tasks ws specs s1 = Inr st'"
    by (cases "place_occurrences ws n hrs c (nat cnt) st") auto
  from place_occurrences_count[OF a, of m] Cons.IH[OF b] sp show ?case
    by (simp split: if_split_asm)
qed

lemma task_specs_occurrences:
  assumes "(name, hrs, cnt, color) \<in> set TASK_SPECS"
  shows "sum_list (map (\<lambda>(n, hrs, cnt, c). if n = name then nat cnt else 0) TASK_SPECS) = nat cnt"
  using assms
  apply (simp add: TASK_SPECS_def)
  apply (elim disjE conjE)
         apply simp_all
  done

lemma run_engine_count:
  assumes "run_engine ws = Inr st" "(name, hrs, cnt, color) \<in> set TASK_SPECS"
  shows "length (filter (\<lambda>e. ev_kind e = ''task'' \<and> ev_name e = name) (events st)) \<le> nat cnt"
proof -
  from assms(1) obtain evs where
    a: "seed_teaching ws [0..6] [] = Inr evs" and
    b: "place_tasks ws TASK_SPECS (initial_sched evs) = Inr st"
    by (cases "seed_teaching ws [0..6] []") (auto simp: run_engine_def)
  from seed_teaching_kind[OF a]
  have "filter (\<lambda>e. ev_kind e = ''task'' \<and> ev_name e = name) (events (initial_sched evs)) = []"
    by (auto simp: initial_sched_def filter_empty_conv)
  with place_tasks_count[OF b, of name] task_specs_occurrences[OF assms(2)]
  show ?thesis by simp
qed

section \<open>The engine on any catalog\<close>

lemma build_events_with_catalog: "build_events ws = build_events_with TASK_SPECS ws"
  by (simp add: build_events_def run_engine_def build_events_with_def split: sum.splits)

lemma build_events_with_total:
  assumes "valid_week ws"
  shows "\<exists>evs. build_events_with specs ws = Inr evs"
proof -
  have "\<forall>wd\<in>set [0..6::int]. 0 \<le> wd \<and> wd \<le> 6" by simp
  from seed_teaching_total[OF assms this] obtain seed where
    a: "seed_teaching ws [0..6] [] = Inr seed" by blast
  from place_tasks_total[OF assms] obtain st where
    "place_tasks ws specs (initial_sched seed) = Inr st" by blast
  with a show ?thesis by (simp add: build_events_with_def)
qed

lemma build_events_with_run:
  assumes "build_events_with specs ws = Inr evs"
  shows "\<exists>seed st. seed_teaching ws [0..6] [] = Inr seed \<and>
           place_tasks ws specs (initial_sched seed) = Inr st \<and>
           evs = sort_key ev_start (events st)"
  using assms by (auto simp: build_events_with_def split: sum.splits)

lemma count_list_insort_key:
  "count_list (insort_key f x xs) e = count_list (x # xs) e"
  by (induction xs) auto

lemma count_list_sort_key: "count_list (sort_key f xs) e = count_list xs e"
proof (induction xs)
  case Nil
  show ?case by simp
next
  case (Cons x xs)
  have "sort_key f (x # xs) = insort_key f x (sort_key f xs)" by (simp add: sort_key_def)
  with Cons show ?case by (simp add: count_list_insort_key)
qed

lemma passes_fail_unchanged:
  assumes "strict_pass ws n hrs c preferred_days st = Inr (st1, False)"
    and "relaxed_pass ws n hrs c preferred_days st1 = Inr (st2, False)"
  shows "st1 = st" "st2 = st" "place_occurrence ws n hrs c st = Inr st"
proof -
  from strict_pass_cases[OF assms(1)] show a: "st1 = st" by simp
  from relaxed_pass_cases[OF assms(2)] a show b: "st2 = st" by simp
  from assms a b show "place_occurrence ws n hrs c st = Inr st"
    by (simp add: place_occurrence_def)
qed

lemma place_occurrence_events:
  assumes "place_occurrence ws n hrs c st = Inr st'"
  shows "events st' = events st \<or>
         (\<exists>start. events st' = events st @ [task_event n start (int_trunc (hrs * 60)) c])"
  using assms by (cases rule: place_occurrence_step) auto

lemma last_monday_overflows: "build_events 3652055 = Inl OverflowError"
  by code_simp

lemma last_monday_is_monday: "start_of_week_monday 3652055 = 3652055"
  by (simp add: start_of_week_monday_def)

lemma packed_week_output:
  "build_events_with [(''Calculation'', 12, 2, ''#f472b6'')] 738886 = Inr
     [\<lparr>ev_name = ''Beginner Class'', ev_start = combine 738886 (time 17 0),
         ev_end = combine 738886 (time 18 0), ev_color = ''#a855f7'', ev_kind = ''teaching''\<rparr>,
      \<lparr>ev_name = ''Leo Mootoo'', ev_start = combine 738886 (time 18 15),
         ev_end = combine 738886 (time 19 15), ev_color = ''#ef4444'', ev_kind = ''teaching''\<rparr>,
      \<lparr>ev_name = ''Pranava Classes'', ev_start = combine 738887 (time 13 30),
         ev_end = combine 738887 (time 17 30), ev_color = ''#14b8a6'', ev_kind = ''teaching''\<rparr>,
      \<lparr>ev_name = ''Advanced Class'', ev_start = combine 738887 (time 18 30),
         ev_end = combine 738887 (time 19 30), ev_color = ''#3b82f6'', ev_kind = ''teaching''\<rparr>,
      \<lparr>ev_name = ''Jaydon'', ev_start = combine 738888 (time 18 30),
         ev_end = combine 738888 (time 19 30), ev_color = ''#f97316'', ev_kind = ''teaching''\<rparr>,
      \<lparr>ev_name = ''Beginner Class'', ev_start = combine 738889 (time 17 0),
         ev_end = combine 738889 (time 18 0), ev_color = ''#a855f7'', ev_kind = ''teaching''\<rparr>,
      \<lparr>ev_name = ''Leo Mootoo'', ev_start = combine 738890 (time 17 0),
         ev_end = combine 738890 (time 18 0), ev_color = ''#ef4444'', ev_kind = ''teaching''\<rparr>,
      \<lparr>ev_name = ''Calculation'', ev_start = combine 738891 (time 13 0),
         ev_end = combine 738892 (time 1 0), ev_color = ''#f472b6'', ev_kind = ''task''\<rparr>,
      \<lparr>ev_name = ''Amrit'', ev_start = combine 738892 (time 19 0),
         ev_end = combine 738892 (time 20 0), ev_color = ''#84cc16'', ev_kind = ''teaching''\<rparr>]"
  by code_simp

lemma packed_week_second_occurrence:
  "(case seed_teaching 738886 [0..6] [] of
      Inl err \<Rightarrow> False
    | Inr seed \<Rightarrow>
        (case place_occurrence 738886 ''Calculation'' 12 ''#f472b6'' (initial_sched seed) of
           Inl err \<Rightarrow> False
         | Inr st \<Rightarrow>
             events st = seed @ [task_event ''Calculation'' (combine 738891 (time 13 0)) 720 ''#f472b6''] \<and>
             (case strict_pass 738886 ''Calculation'' 12 ''#f472b6'' preferred_days st of
                Inl err \<Rightarrow> False | Inr (s, placed) \<Rightarrow> \<not> placed) \<and>
             (case relaxed_pass 738886 ''Calculation'' 12 ''#f472b6'' preferred_days st of
                Inl err \<Rightarrow> False | Inr (s, placed) \<Rightarrow> \<not> placed) \<and>
             (case try_place_task_on_day 738886 (events st) ''Calculation'' 12 ''#f472b6'' 0 of
                Inl err \<Rightarrow> False | Inr (evs, ok) \<Rightarrow> \<not> ok \<and> 0 \<notin> used_days st ''Calculation'')))"
  by code_simp

section \<open>The first day a pass tries\<close>

lemma strict_pass_first_day:
  assumes "\<not> strict_skips st n wd"
    and "try_place_task_on_day ws (events st) n hrs c wd = Inr (evs', True)"
  shows "strict_pass ws n hrs c (wd # wds) st = Inr (strict_update st n wd evs', True)"
  using assms by (simp add: strict_pass_Cons)

lemma relaxed_pass_first_day:
  assumes "\<not> relaxed_skips st n wd"
    and "try_place_task_on_day ws (events st) n hrs c wd = Inr (evs', True)"
  shows "relaxed_pass ws n hrs c (wd # wds) st = Inr (relaxed_update st n wd evs', True)"
  using assms by (simp add: relaxed_pass_Cons)

lemma initial_sched_not_skipped:
  "\<not> strict_skips (initial_sched evs) n 0" "\<not> relaxed_skips (initial_sched evs) n 0"
  by (simp_all add: strict_skips_def relaxed_skips_def initial_sched_def MAX_TASKS_WEEKDAY_def)

lemma seed_example:
  obtains seed where "seed_teaching 738886 [0..6] [] = Inr seed"
proof -
  have "\<forall>wd\<in>set [0..6::int]. 0 \<le> wd \<and> wd \<le> 6" by simp
  from seed_teaching_total[OF valid_week_example this] that show thesis by blast
qed

lemma pass_success:
  assumes "pass = strict_pass \<or> pass = relaxed_pass"
    and "pass ws n hrs c wds st = Inr (st', True)"
  shows "\<exists>wd evs'. wd \<in> set wds \<and> \<not> relaxed_skips st n wd \<and>
           try_place_task_on_day ws (events st) n hrs c wd = Inr (evs', True) \<and>
           events st' = evs' \<and>
           used_days st' = (used_days st)(n := insert wd (used_days st n)) \<and>
           gym_days st' = (if n = ''Gym'' then gym_days st @ [wd] else gym_days st)"
  using assms(1)
proof
  assume "pass = strict_pass"
  with assms(2) have "strict_pass ws n hrs c wds st = Inr (st', True)" by simp
  from strict_pass_cases[OF this] obtain wd evs' where
    "wd \<in> set wds" "\<not> strict_skips st n wd"
    "try_place_task_on_day ws (events st) n hrs c wd = Inr (evs', True)"
    "st' = strict_update st n wd evs'" by auto
  then show ?thesis
    using strict_skips_relaxed by (intro exI[of _ wd] exI[of _ evs']) (simp add: strict_update_def)
next
  assume "pass = relaxed_pass"
  with assms(2) have "relaxed_pass ws n hrs c wds st = Inr (st', True)" by simp
  from relaxed_pass_cases[OF this] obtain wd evs' where
    "wd \<in> set wds" "\<not> relaxed_skips st n wd"
    "try_place_task_on_day ws (events st) n hrs c wd = Inr (evs', True)"
    "st' = relaxed_update st n wd evs'" by auto
  then show ?thesis
    by (intro exI[of _ wd] exI[of _ evs']) (simp add: relaxed_update_def)
qed

lemma set_build_events:
  assumes "build_events ws = Inr evs"
  obtains st where "run_engine ws = Inr st" "evs = sort_key ev_start (events st)"
    "set evs = set (events st)"
proof -
  from assms obtain st where "run_engine ws = Inr st" "evs = sort_key ev_start (events st)"
    by (rule build_events_run)
  with that show thesis by simp
qed

lemma task_names_are_tasks:
  assumes "run_engine ws = Inr st" "e \<in> set (events st)"
    and "ev_name e \<notin> {''Beginner Class'', ''Leo Mootoo'', ''Pranava Classes'', ''Advanced Class'',
                       ''Jaydon'', ''Amrit''}"
  shows "ev_kind e = ''task''"
  using run_engine_kinds[OF assms(1)] assms(2,3) by blast

section \<open>A run that uses the relaxed pass\<close>

text \<open>
  The shipped catalog never reaches the relaxed pass with a placement. This catalog does:
  three tasks of one hour asked once each fill Monday's quota of three, and a fourth task
  asked seven times goes to the six other weekdays in the strict pass (Monday is skipped as
  full) and, for its seventh occurrence, to Monday in the relaxed pass. The lemma evaluates
  the run up to the sixth occurrence of the fourth task and then the two passes of the
  seventh.
\<close>

lemma relaxed_run_example:
  "(case seed_teaching 738886 [0..6] [] of
      Inl err \<Rightarrow> False
    | Inr seed \<Rightarrow>
        (case place_tasks 738886
                [(''My System'', 1, 1, ''#8b5cf6''), (''Calculation'', 1, 1, ''#f472b6''),
                 (''Middlegame Study'', 1, 1, ''#ec4899''), (''League Study'', 1, 6, ''#f59e0b'')]
                (initial_sched seed) of
           Inl err \<Rightarrow> False
         | Inr s6 \<Rightarrow>
             tasks_per_day s6 0 = 3 \<and>
             0 \<in> used_days s6 ''My System'' \<and>
             0 \<in> used_days s6 ''Calculation'' \<and>
             0 \<in> used_days s6 ''Middlegame Study'' \<and>
             used_days s6 ''League Study'' = {1, 2, 3, 4, 5, 6} \<and>
             (case strict_pass 738886 ''League Study'' 1 ''#f59e0b'' preferred_days s6 of
                Inl err \<Rightarrow> False | Inr (s, placed) \<Rightarrow> \<not> placed) \<and>
             (case relaxed_pass 738886 ''League Study'' 1 ''#f59e0b'' preferred_days s6 of
                Inl err \<Rightarrow> False
              | Inr (s7, placed) \<Rightarrow>
                  placed \<and> tasks_per_day s7 0 = 3 \<and>
                  used_days s7 ''League Study'' = {0, 1, 2, 3, 4, 5, 6} \<and>
                  events s7 = events s6 @
                    [task_event ''League Study'' (combine 738886 (time 13 0)) 60 ''#f59e0b''])))"
  by code_simp

lemma place_occurrences_last:
  "place_occurrences ws n h c (Suc k) st =
     (case place_occurrences ws n h c k st of
        Inl err \<Rightarrow> Inl err
      | Inr s \<Rightarrow> place_occurrence ws n h c s)"
proof (induction k arbitrary: st)
  case 0
  show ?case by (cases "place_occurrence ws n h c st") simp_all
next
  case (Suc k)
  show ?case
  proof (cases "place_occurrence ws n h c st")
    case (Inl err)
    then show ?thesis by simp
  next
    case (Inr s1)
    have "place_occurrences ws n h c (Suc (Suc k)) st = place_occurrences ws n h c (Suc k) s1"
      using Inr by simp
    also have "\<dots> = (case place_occurrences ws n h c k s1 of
        Inl err \<Rightarrow> Inl err | Inr s \<Rightarrow> place_occurrence ws n h c s)"
      by (rule Suc.IH)
    also have "place_occurrences ws n h c k s1 = place_occurrences ws n h c (Suc k) st"
      using Inr by simp
    finally show ?thesis .
  qed
qed

lemma place_tasks_last_occurrence:
  "place_tasks ws (specs @ [(n, h, int (Suc k), c)]) st =
     (case place_tasks ws (specs @ [(n, h, int k, c)]) st of
        Inl err \<Rightarrow> Inl err
      | Inr s \<Rightarrow> place_occurrence ws n h c s)"
proof (induction specs arbitrary: st)
  case Nil
  have "place_tasks ws [(n, h, int (Suc k), c)] st = place_occurrences ws n h c (Suc k) st"
    by (cases "place_occurrences ws n h c (Suc k) st") (simp_all only: place_tasks.simps nat_int sum.case)
  moreover have "place_tasks ws [(n, h, int k, c)] st = place_occurrences ws n h c k st"
    by (cases "place_occurrences ws n h c k st") (simp_all only: place_tasks.simps nat_int sum.case)
  ultimately show ?case by (simp only: append_Nil place_occurrences_last)
next
  case (Cons sp specs)
  obtain n' h' k' c' where sp: "sp = (n', h', k', c')" by (cases sp) auto
  show ?case
  proof (cases "place_occurrences ws n' h' c' (nat k') st")
    case (Inl err)
    then show ?thesis by (simp add: sp)
  next
    case (Inr s1)
    then show ?thesis using Cons.IH[of s1] by (simp add: sp)
  qed
qed

section \<open>The override changes one event\<close>

lemma manual_override_no_target:
  "\<not> list_ex (override_target mon) evs \<Longrightarrow> manual_override mon evs = evs"
  by (induction evs) auto

lemma manual_override_first_target:
  "\<not> list_ex (override_target mon) pre \<Longrightarrow> override_target mon ev \<Longrightarrow>
   manual_override mon (pre @ ev # post) = pre @ pin mon ev # post"
  by (induction pre) auto

lemma pin_fields:
  "ev_name (pin mon ev) = ev_name ev \<and> ev_color (pin mon ev) = ev_color ev \<and>
   ev_kind (pin mon ev) = ev_kind ev \<and>
   ev_start (pin mon ev) = combine mon (time 13 0) \<and> ev_end (pin mon ev) = combine mon (time 14 0)"
  by (simp add: pin_def)

text \<open>
  C7. The override is the identity on a list with no "My System" event starting on the
  Monday. Otherwise it replaces the first such event, and nothing else: the events before
  and after it stay as they are and in place, and the replaced event keeps its name, colour
  and kind and gets the start Monday 13:00 and the end Monday 14:00.
\<close>

theorem manual_override_frame:
  "(\<not> list_ex (override_target mon) evs \<longrightarrow> manual_override mon evs = evs) \<and>
   (\<forall>pre ev post.
      evs = pre @ ev # post \<and> \<not> list_ex (override_target mon) pre \<and> override_target mon ev \<longrightarrow>
        manual_override mon evs = pre @ pin mon ev # post \<and>
        ev_name (pin mon ev) = ev_name ev \<and> ev_color (pin mon ev) = ev_color ev \<and>
        ev_kind (pin mon ev) = ev_kind ev \<and>
        ev_start (pin mon ev) = combine mon (time 13 0) \<and>
        ev_end (pin mon ev) = combine mon (time 14 0))"
  using manual_override_no_target manual_override_first_target pin_fields by blast

theorem manual_override_frame_witness:
  "\<not> list_ex (override_target 738886)
       [\<lparr>ev_name = ''Beginner Class'', ev_start = combine 738886 (time 17 0),
          ev_end = combine 738886 (time 18 0), ev_color = ''#a855f7'', ev_kind = ''teaching''\<rparr>] \<and>
   override_target 738886
       \<lparr>ev_name = ''My System'', ev_start = combine 738886 (time 22 0),
          ev_end = combine 738886 (time 23 0), ev_color = ''#8b5cf6'', ev_kind = ''task''\<rparr> \<and>
   manual_override 738886
     [\<lparr>ev_name = ''Beginner Class'', ev_start = combine 738886 (time 17 0),
        ev_end = combine 738886 (time 18 0), ev_color = ''#a855f7'', ev_kind = ''teaching''\<rparr>,
      \<lparr>ev_name = ''My System'', ev_start = combine 738886 (time 22 0),
        ev_end = combine 738886 (time 23 0), ev_color = ''#8b5cf6'', ev_kind = ''task''\<rparr>,
      \<lparr>ev_name = ''My System'', ev_start = combine 738886 (time 23 15),
        ev_end = combine 738887 (time 0 15), ev_color = ''#8b5cf6'', ev_kind = ''task''\<rparr>]
   = [\<lparr>ev_name = ''Beginner Class'', ev_start = combine 738886 (time 17 0),
        ev_end = combine 738886 (time 18 0), ev_color = ''#a855f7'', ev_kind = ''teaching''\<rparr>,
      \<lparr>ev_name = ''My System'', ev_start = combine 738886 (time 13 0),
        ev_end = combine 738886 (time 14 0), ev_color = ''#8b5cf6'', ev_kind = ''task''\<rparr>,
      \<lparr>ev_name = ''My System'', ev_start = combine 738886 (time 23 15),
        ev_end = combine 738887 (time 0 15), ev_color = ''#8b5cf6'', ev_kind = ''task''\<rparr>]"
  using manual_override_frame [of 738886
     "[\<lparr>ev_name = ''Beginner Class'', ev_start = combine 738886 (time 17 0),
        ev_end = combine 738886 (time 18 0), ev_color = ''#a855f7'', ev_kind = ''teaching''\<rparr>,
      \<lparr>ev_name = ''My System'', ev_start = combine 738886 (time 22 0),
        ev_end = combine 738886 (time 23 0), ev_color = ''#8b5cf6'', ev_kind = ''task''\<rparr>,
      \<lparr>ev_name = ''My System'', ev_start = combine 738886 (time 23 15),
        ev_end = combine 738887 (time 0 15), ev_color = ''#8b5cf6'', ev_kind = ''task''\<rparr>]"]
  by (simp add: override_target_def pin_def dt_date_def combine_def time_def)

section \<open>Output ordering\<close>

text \<open>
  C8. The list returned by \<open>build_events\<close> is sorted ascending by start timestamp, and so
  is the list after the manual override and the second sort, which is the list the
  calendar renderer and the PDF exporter receive.
\<close>

theorem output_sorted_by_start:
  "(build_events week_start = Inr evs \<longrightarrow> sorted (map ev_start evs)) \<and>
   (final_events week_start = Inr evs' \<longrightarrow> sorted (map ev_start evs'))"
  by (auto simp: build_events_def final_events_def split: sum.splits)

theorem output_sorted_by_start_witness:
  "\<exists>evs evs'. build_events 738886 = Inr evs \<and> final_events 738886 = Inr evs' \<and>
     sorted (map ev_start evs) \<and> sorted (map ev_start evs')"
proof -
  from build_events_total[OF valid_week_example] obtain evs where
    a: "build_events 738886 = Inr evs" by blast
  from final_events_total[OF valid_week_example] obtain evs' where
    b: "final_events 738886 = Inr evs'" by blast
  from output_sorted_by_start[of 738886 evs evs'] a b show ?thesis by blast
qed

section \<open>An occurrence that cannot be placed\<close>

text \<open>
  C3, as amended. Take a week start whose week and the day after it are dates of the
  calendar, and durations that are multiples of a quarter of an hour up to 24 hours. Then
  no occurrence raises and the engine returns a list for every catalog. When the strict
  pass and then the relaxed pass of an occurrence both come back without a placement, the
  state is the one before the occurrence, and the run goes on as it would for a catalog
  asking one occurrence fewer of that task: the occurrence is absent, nothing else changes.
  An occurrence appends one event or none, and the list returned holds the events of the
  final state, each as often as there, sorted by start. \<open>build_events\<close> is this engine at
  \<open>TASK_SPECS\<close>. For the last Monday of the calendar, 9999-12-27, \<open>build_events\<close> raises
  \<^verbatim>\<open>OverflowError\<close> while seeding, which is why the week start is restricted.
\<close>

theorem unplaced_occurrence_is_dropped:
  assumes "valid_week week_start" and "quarter_hours hrs"
    and "list_all (\<lambda>(n, h, cnt, c). quarter_hours h) specs"
  shows "(\<exists>st'. place_occurrence week_start name hrs color st = Inr st') \<and>
         (\<exists>evs. build_events_with specs week_start = Inr evs) \<and>
         (strict_pass week_start name hrs color preferred_days st = Inr (st1, False) \<and>
          relaxed_pass week_start name hrs color preferred_days st1 = Inr (st2, False) \<longrightarrow>
            st1 = st \<and> st2 = st \<and>
            place_occurrence week_start name hrs color st = Inr st \<and>
            place_occurrences week_start name hrs color (Suc k) st =
              place_occurrences week_start name hrs color k st \<and>
            place_tasks week_start ((name, hrs, int (Suc k), color) # specs) st =
              place_tasks week_start ((name, hrs, int k, color) # specs) st) \<and>
         (place_occurrence week_start name hrs color st = Inr st3 \<longrightarrow>
            events st3 = events st \<or>
            (\<exists>start. events st3 = events st @ [task_event name start (int_trunc (hrs * 60)) color])) \<and>
         (build_events_with specs week_start = Inr evs \<longrightarrow>
            (\<exists>seed st'. seed_teaching week_start [0..6] [] = Inr seed \<and>
                        place_tasks week_start specs (initial_sched seed) = Inr st' \<and>
                        evs = sort_key ev_start (events st') \<and>
                        (\<forall>e. count_list evs e = count_list (events st') e))) \<and>
         build_events week_start = build_events_with TASK_SPECS week_start"
proof (intro conjI impI)
  show "\<exists>st'. place_occurrence week_start name hrs color st = Inr st'"
    by (rule place_occurrence_total[OF assms(1)])
  show "\<exists>evs. build_events_with specs week_start = Inr evs"
    by (rule build_events_with_total[OF assms(1)])
  show "build_events week_start = build_events_with TASK_SPECS week_start"
    by (rule build_events_with_catalog)
next
  assume a: "strict_pass week_start name hrs color preferred_days st = Inr (st1, False) \<and>
          relaxed_pass week_start name hrs color preferred_days st1 = Inr (st2, False)"
  then have s: "strict_pass week_start name hrs color preferred_days st = Inr (st1, False)"
    and r: "relaxed_pass week_start name hrs color preferred_days st1 = Inr (st2, False)"
    by simp_all
  from passes_fail_unchanged[OF s r]
  show "st1 = st" and "st2 = st"
    and p: "place_occurrence week_start name hrs color st = Inr st" .
  from p show "place_occurrences week_start name hrs color (Suc k) st =
              place_occurrences week_start name hrs color k st"
    by simp
  then show "place_tasks week_start ((name, hrs, int (Suc k), color) # specs) st =
              place_tasks week_start ((name, hrs, int k, color) # specs) st"
    by (simp only: place_tasks.simps nat_int)
next
  assume "place_occurrence week_start name hrs color st = Inr st3"
  then show "events st3 = events st \<or>
            (\<exists>start. events st3 = events st @ [task_event name start (int_trunc (hrs * 60)) color])"
    by (rule place_occurrence_events)
next
  assume "build_events_with specs week_start = Inr evs"
  from build_events_with_run[OF this] obtain seed st' where
    "seed_teaching week_start [0..6] [] = Inr seed"
    "place_tasks week_start specs (initial_sched seed) = Inr st'"
    "evs = sort_key ev_start (events st')" by blast
  then show "\<exists>seed st'. seed_teaching week_start [0..6] [] = Inr seed \<and>
                        place_tasks week_start specs (initial_sched seed) = Inr st' \<and>
                        evs = sort_key ev_start (events st') \<and>
                        (\<forall>e. count_list evs e = count_list (events st') e)"
    by (auto simp: count_list_sort_key)
qed

text \<open>
  The witness is a week packed by a task of 12 hours asked twice. Only Saturday has no
  teaching block inside a 12-hour stretch of its window, so the first occurrence goes to
  Saturday 13:00. For the second one the time-of-day search runs on the six other weekdays
  in the strict pass and again in the relaxed pass and fails each time; the occurrence is
  dropped and the list returned holds the teaching events and one task event.
\<close>

theorem unplaced_occurrence_is_dropped_witness:
  "valid_week 738886 \<and> quarter_hours 12 \<and>
   list_all (\<lambda>(n, h, cnt, c). quarter_hours h) [(''Calculation'', 12, 2::int, ''#f472b6'')] \<and>
   (\<exists>seed st.
      seed_teaching 738886 [0..6] [] = Inr seed \<and>
      place_occurrence 738886 ''Calculation'' 12 ''#f472b6'' (initial_sched seed) = Inr st \<and>
      events st = seed @ [task_event ''Calculation'' (combine 738891 (time 13 0)) 720 ''#f472b6''] \<and>
      0 \<notin> used_days st ''Calculation'' \<and>
      try_place_task_on_day 738886 (events st) ''Calculation'' 12 ''#f472b6'' 0
        = Inr (events st, False) \<and>
      strict_pass 738886 ''Calculation'' 12 ''#f472b6'' preferred_days st = Inr (st, False) \<and>
      relaxed_pass 738886 ''Calculation'' 12 ''#f472b6'' preferred_days st = Inr (st, False) \<and>
      place_occurrence 738886 ''Calculation'' 12 ''#f472b6'' st = Inr st \<and>
      place_occurrences 738886 ''Calculation'' 12 ''#f472b6'' (Suc 0) st = Inr st \<and>
      place_tasks 738886 [(''Calculation'', 12, 2, ''#f472b6'')] (initial_sched seed) = Inr st) \<and>
   build_events_with [(''Calculation'', 12, 2, ''#f472b6'')] 738886 = Inr
     [\<lparr>ev_name = ''Beginner Class'', ev_start = combine 738886 (time 17 0),
         ev_end = combine 738886 (time 18 0), ev_color = ''#a855f7'', ev_kind = ''teaching''\<rparr>,
      \<lparr>ev_name = ''Leo Mootoo'', ev_start = combine 738886 (time 18 15),
         ev_end = combine 738886 (time 19 15), ev_color = ''#ef4444'', ev_kind = ''teaching''\<rparr>,
      \<lparr>ev_name = ''Pranava Classes'', ev_start = combine 738887 (time 13 30),
         ev_end = combine 738887 (time 17 30), ev_color = ''#14b8a6'', ev_kind = ''teaching''\<rparr>,
      \<lparr>ev_name = ''Advanced Class'', ev_start = combine 738887 (time 18 30),
         ev_end = combine 738887 (time 19 30), ev_color = ''#3b82f6'', ev_kind = ''teaching''\<rparr>,
      \<lparr>ev_name = ''Jaydon'', ev_start = combine 738888 (time 18 30),
         ev_end = combine 738888 (time 19 30), ev_color = ''#f97316'', ev_kind = ''teaching''\<rparr>,
      \<lparr>ev_name = ''Beginner Class'', ev_start = combine 738889 (time 17 0),
         ev_end = combine 738889 (time 18 0), ev_color = ''#a855f7'', ev_kind = ''teaching''\<rparr>,
      \<lparr>ev_name = ''Leo Mootoo'', ev_start = combine 738890 (time 17 0),
         ev_end = combine 738890 (time 18 0), ev_color = ''#ef4444'', ev_kind = ''teaching''\<rparr>,
      \<lparr>ev_name = ''Calculation'', ev_start = combine 738891 (time 13 0),
         ev_end = combine 738892 (time 1 0), ev_color = ''#f472b6'', ev_kind = ''task''\<rparr>,
      \<lparr>ev_name = ''Amrit'', ev_start = combine 738892 (time 19 0),
         ev_end = combine 738892 (time 20 0), ev_color = ''#84cc16'', ev_kind = ''teaching''\<rparr>]"
proof -
  let ?n = "''Calculation''" and ?c = "''#f472b6''"
  have q: "quarter_hours 12" by (simp add: quarter_hours_def)
  have l: "list_all (\<lambda>(n, h, cnt, c). quarter_hours h) [(?n, 12, 2::int, ?c)]"
    by (simp add: q)
  have "\<forall>wd\<in>set [0..6::int]. 0 \<le> wd \<and> wd \<le> 6" by simp
  from seed_teaching_total[OF valid_week_example this] obtain seed where
    seed: "seed_teaching 738886 [0..6] [] = Inr seed" by blast
  note main = unplaced_occurrence_is_dropped[OF valid_week_example q l]
  from main[of ?n ?c "initial_sched seed"] obtain st where
    p1: "place_occurrence 738886 ?n 12 ?c (initial_sched seed) = Inr st" by blast
  note x = packed_week_second_occurrence[unfolded seed sum.case p1]
  from x have ev: "events st = seed @ [task_event ?n (combine 738891 (time 13 0)) 720 ?c]"
    by (rule conjunct1)
  from x have sp: "case strict_pass 738886 ?n 12 ?c preferred_days st of
                Inl err \<Rightarrow> False | Inr (s, placed) \<Rightarrow> \<not> placed"
    by (rule conjunct2[THEN conjunct1])
  from x have rp: "case relaxed_pass 738886 ?n 12 ?c preferred_days st of
                Inl err \<Rightarrow> False | Inr (s, placed) \<Rightarrow> \<not> placed"
    by (rule conjunct2[THEN conjunct2, THEN conjunct1])
  from x have tp: "case try_place_task_on_day 738886 (events st) ?n 12 ?c 0 of
                Inl err \<Rightarrow> False | Inr (evs, ok) \<Rightarrow> \<not> ok \<and> 0 \<notin> used_days st ?n"
    by (rule conjunct2[THEN conjunct2, THEN conjunct2])
  from sp obtain s1 where s1: "strict_pass 738886 ?n 12 ?c preferred_days st = Inr (s1, False)"
    by (cases "strict_pass 738886 ?n 12 ?c preferred_days st") auto
  from strict_pass_cases[OF s1] have "s1 = st" by simp
  with s1 have s: "strict_pass 738886 ?n 12 ?c preferred_days st = Inr (st, False)" by simp
  from rp obtain s2 where s2: "relaxed_pass 738886 ?n 12 ?c preferred_days st = Inr (s2, False)"
    by (cases "relaxed_pass 738886 ?n 12 ?c preferred_days st") auto
  from relaxed_pass_cases[OF s2] have "s2 = st" by simp
  with s2 have r: "relaxed_pass 738886 ?n 12 ?c preferred_days st = Inr (st, False)" by simp
  from tp obtain evs0 where t0: "try_place_task_on_day 738886 (events st) ?n 12 ?c 0 = Inr (evs0, False)"
    and u: "0 \<notin> used_days st ?n"
    by (cases "try_place_task_on_day 738886 (events st) ?n 12 ?c 0") auto
  from try_place_cases[OF t0] have "evs0 = events st" by simp
  with t0 have t: "try_place_task_on_day 738886 (events st) ?n 12 ?c 0 = Inr (events st, False)"
    by simp
  from main[of ?n ?c st st st 0] s r have
    d: "place_occurrence 738886 ?n 12 ?c st = Inr st"
       "place_occurrences 738886 ?n 12 ?c (Suc 0) st = place_occurrences 738886 ?n 12 ?c 0 st"
    by simp_all
  then have d2: "place_occurrences 738886 ?n 12 ?c (Suc 0) st = Inr st" by simp
  have "place_occurrences 738886 ?n 12 ?c (Suc (Suc 0)) (initial_sched seed) = Inr st"
    using p1 d2 by simp
  then have pt: "place_tasks 738886 [(?n, 12, 2, ?c)] (initial_sched seed) = Inr st"
    by (simp add: numeral_2_eq_2)
  from seed p1 ev u t s r d(1) d2 pt valid_week_example q l packed_week_output
  show ?thesis by blast
qed

text \<open>
  The counterexample to the claim as stated, which is about every week start: 3652055 is
  the ordinal of Monday 9999-12-27, and Saturday of that week is past the last date.
\<close>

theorem last_week_raises_counterexample:
  "start_of_week_monday 3652055 = 3652055 \<and> build_events 3652055 = Inl OverflowError"
  using last_monday_is_monday last_monday_overflows by simp

section \<open>Placed events never overlap\<close>


text \<open>
  C1. Every event of the list \<open>build_events\<close> returns starts before it ends. Any two events
  at different positions of the list do not overlap, and when one of them is a task its
  interval widened by the buffer of 15 minutes on both sides does not overlap the other
  event either. This holds because every accepted placement (of a duration that is a
  multiple of a quarter of an hour up to 24 hours) appends one event that passed
  \<open>can_place\<close> against the whole list built so far.
\<close>

theorem placed_events_never_overlap:
  "(build_events week_start = Inr evs \<longrightarrow>
      (\<forall>e\<in>set evs. ev_start e < ev_end e) \<and>
      (\<forall>i j. i < j \<and> j < length evs \<longrightarrow>
         \<not> overlaps (ev_start (evs ! i)) (ev_end (evs ! i))
                     (ev_start (evs ! j)) (ev_end (evs ! j)) \<and>
         (ev_kind (evs ! i) = ''task'' \<longrightarrow>
            \<not> overlaps (ev_start (evs ! i) - BUFFER_MIN) (ev_end (evs ! i) + BUFFER_MIN)
                        (ev_start (evs ! j)) (ev_end (evs ! j))) \<and>
         (ev_kind (evs ! j) = ''task'' \<longrightarrow>
            \<not> overlaps (ev_start (evs ! j) - BUFFER_MIN) (ev_end (evs ! j) + BUFFER_MIN)
                        (ev_start (evs ! i)) (ev_end (evs ! i))))) \<and>
   (quarter_hours hrs \<and>
    try_place_task_on_day week_start evs_before name hrs color wd = Inr (evs_after, True) \<longrightarrow>
      (\<exists>start. evs_after = evs_before @ [task_event name start (int_trunc (hrs * 60)) color] \<and>
               can_place evs_before start (start + int_trunc (hrs * 60))))"
proof (intro conjI impI allI)
  assume b: "build_events week_start = Inr evs"
  from build_events_conflict_free[OF b]
  show "\<forall>e\<in>set evs. ev_start e < ev_end e" by simp
next
  fix i j
  assume b: "build_events week_start = Inr evs" and ij: "i < j \<and> j < length evs"
  from build_events_conflict_free[OF b] have "sorted_wrt compatible evs" by simp
  with ij have c: "compatible (evs ! i) (evs ! j)"
    by (simp add: sorted_wrt_iff_nth_less)
  then show "\<not> overlaps (ev_start (evs ! i)) (ev_end (evs ! i))
                     (ev_start (evs ! j)) (ev_end (evs ! j))"
    by (simp add: compatible_def)
  {
    assume "ev_kind (evs ! i) = ''task''"
    with c show "\<not> overlaps (ev_start (evs ! i) - BUFFER_MIN) (ev_end (evs ! i) + BUFFER_MIN)
                        (ev_start (evs ! j)) (ev_end (evs ! j))"
      by (auto simp: compatible_def apart_def overlaps_def)
  }
  {
    assume "ev_kind (evs ! j) = ''task''"
    with c show "\<not> overlaps (ev_start (evs ! j) - BUFFER_MIN) (ev_end (evs ! j) + BUFFER_MIN)
                        (ev_start (evs ! i)) (ev_end (evs ! i))"
      by (auto simp: compatible_def apart_def overlaps_def)
  }
next
  assume "quarter_hours hrs \<and>
    try_place_task_on_day week_start evs_before name hrs color wd = Inr (evs_after, True)"
  then have "try_place_task_on_day week_start evs_before name hrs color wd = Inr (evs_after, True)"
    by simp
  from try_place_cases[OF this]
  show "\<exists>start. evs_after = evs_before @ [task_event name start (int_trunc (hrs * 60)) color] \<and>
               can_place evs_before start (start + int_trunc (hrs * 60))"
    by auto
qed

theorem placed_events_never_overlap_witness:
  "(\<exists>evs. build_events 738886 = Inr evs \<and>
      (\<forall>e\<in>set evs. ev_start e < ev_end e) \<and>
      (\<forall>i j. i < j \<and> j < length evs \<longrightarrow>
         \<not> overlaps (ev_start (evs ! i)) (ev_end (evs ! i))
                     (ev_start (evs ! j)) (ev_end (evs ! j)) \<and>
         (ev_kind (evs ! i) = ''task'' \<longrightarrow>
            \<not> overlaps (ev_start (evs ! i) - BUFFER_MIN) (ev_end (evs ! i) + BUFFER_MIN)
                        (ev_start (evs ! j)) (ev_end (evs ! j))) \<and>
         (ev_kind (evs ! j) = ''task'' \<longrightarrow>
            \<not> overlaps (ev_start (evs ! j) - BUFFER_MIN) (ev_end (evs ! j) + BUFFER_MIN)
                        (ev_start (evs ! i)) (ev_end (evs ! i))))) \<and>
   quarter_hours 1 \<and>
   (\<exists>seed start.
      seed_teaching 738886 [0..6] [] = Inr seed \<and>
      try_place_task_on_day 738886 seed ''My System'' 1 ''#8b5cf6'' 0 =
        Inr (seed @ [task_event ''My System'' (combine 738886 (time 22 0)) 60 ''#8b5cf6''], True) \<and>
      seed @ [task_event ''My System'' (combine 738886 (time 22 0)) 60 ''#8b5cf6''] =
        seed @ [task_event ''My System'' start (int_trunc (1 * 60)) ''#8b5cf6''] \<and>
      can_place seed start (start + int_trunc (1 * 60)))"
proof -
  from build_events_total[OF valid_week_example] obtain evs where
    a: "build_events 738886 = Inr evs" by blast
  have "\<forall>wd\<in>set [0..6::int]. 0 \<le> wd \<and> wd \<le> 6" by simp
  from seed_teaching_total[OF valid_week_example this] obtain seed where
    seed: "seed_teaching 738886 [0..6] [] = Inr seed" by blast
  note p = first_placement_example[unfolded seed sum.case]
  note t = placed_events_never_overlap[where week_start = 738886 and evs = evs
      and evs_before = seed and name = "''My System''" and hrs = 1 and color = "''#8b5cf6''"
      and wd = 0
      and evs_after = "seed @ [task_event ''My System'' (combine 738886 (time 22 0)) 60 ''#8b5cf6'']"]
  have q: "quarter_hours 1" by (simp add: quarter_hours_def)
  from t a q seed p show ?thesis by blast
qed

section \<open>Gym ends by 9 PM and its days are two apart\<close>

lemma gym_first_placement_example:
  "(case seed_teaching 738886 [0..6] [] of
      Inl err \<Rightarrow> False
    | Inr seed \<Rightarrow>
        try_place_task_on_day 738886 seed ''Gym'' (3 / 4) ''#10b981'' 0 =
          Inr (seed @ [task_event ''Gym'' (combine 738886 (time 20 0)) 45 ''#10b981''], True))"
  by code_simp

text \<open>
  C4. Every event named "Gym" of the list \<open>build_events\<close> returns ends on the calendar day
  it starts on, at 21:00 or earlier. The weekdays on which the run placed Gym are the list
  \<open>gym_days\<close> of its final state: every Gym event lies in the day window of one of them,
  and any two entries of the list differ by at least 2. In both passes a Gym placement on
  weekday \<open>wd\<close> appends \<open>wd\<close> to \<open>gym_days\<close>, and only a weekday at least 2 away from
  every entry is tried.
\<close>

theorem gym_ends_by_nine_and_days_are_spaced:
  "(build_events week_start = Inr evs \<longrightarrow>
      (\<forall>e\<in>set evs. ev_name e = ''Gym'' \<longrightarrow>
          dt_date (ev_end e) = dt_date (ev_start e) \<and> dt_time (ev_end e) \<le> time 21 0) \<and>
      (\<exists>st. run_engine week_start = Inr st \<and> evs = sort_key ev_start (events st) \<and>
          (\<forall>e\<in>set evs. ev_name e = ''Gym'' \<longrightarrow>
              (\<exists>wd\<in>set (gym_days st). in_day_window week_start wd e)) \<and>
          (\<forall>i j. i < j \<and> j < length (gym_days st) \<longrightarrow>
              2 \<le> \<bar>gym_days st ! i - gym_days st ! j\<bar>))) \<and>
   (quarter_hours hrs \<and> (pass = strict_pass \<or> pass = relaxed_pass) \<and>
    pass week_start ''Gym'' hrs color wds s = Inr (s', True) \<longrightarrow>
      (\<exists>wd\<in>set wds. gym_days s' = gym_days s @ [wd] \<and>
          (\<forall>gd\<in>set (gym_days s). 2 \<le> \<bar>wd - gd\<bar>)))"
proof (intro conjI impI)
  assume b: "build_events week_start = Inr evs"
  then obtain st where st: "run_engine week_start = Inr st"
    "evs = sort_key ev_start (events st)" "set evs = set (events st)"
    by (rule set_build_events)
  have task: "ev_kind e = ''task''" if "e \<in> set evs" "ev_name e = ''Gym''" for e
    using task_names_are_tasks[OF st(1), of e] that st(3) by simp
  show "\<forall>e\<in>set evs. ev_name e = ''Gym'' \<longrightarrow>
          dt_date (ev_end e) = dt_date (ev_start e) \<and> dt_time (ev_end e) \<le> time 21 0"
    using run_engine_gym_events[OF st(1)] task st(3) by blast
  have win: "\<forall>e\<in>set evs. ev_name e = ''Gym'' \<longrightarrow>
              (\<exists>wd\<in>set (gym_days st). in_day_window week_start wd e)"
  proof (intro ballI impI)
    fix e assume e: "e \<in> set evs" "ev_name e = ''Gym''"
    from run_engine_assigned[OF st(1)] e task st(3)
    obtain wd where "wd \<in> used_days st (ev_name e)" "in_day_window week_start wd e" by blast
    with e(2) run_engine_gym_days[OF st(1)]
    show "\<exists>wd\<in>set (gym_days st). in_day_window week_start wd e" by auto
  qed
  have sp: "\<forall>i j. i < j \<and> j < length (gym_days st) \<longrightarrow>
              2 \<le> \<bar>gym_days st ! i - gym_days st ! j\<bar>"
    using run_engine_gym_days[OF st(1)] by (simp add: sorted_wrt_iff_nth_less)
  from st(1) st(2) win sp
  show "\<exists>st. run_engine week_start = Inr st \<and> evs = sort_key ev_start (events st) \<and>
          (\<forall>e\<in>set evs. ev_name e = ''Gym'' \<longrightarrow>
              (\<exists>wd\<in>set (gym_days st). in_day_window week_start wd e)) \<and>
          (\<forall>i j. i < j \<and> j < length (gym_days st) \<longrightarrow>
              2 \<le> \<bar>gym_days st ! i - gym_days st ! j\<bar>)"
    by blast
next
  assume a: "quarter_hours hrs \<and> (pass = strict_pass \<or> pass = relaxed_pass) \<and>
    pass week_start ''Gym'' hrs color wds s = Inr (s', True)"
  then have "pass = strict_pass \<or> pass = relaxed_pass"
    and "pass week_start ''Gym'' hrs color wds s = Inr (s', True)" by simp_all
  from pass_success[OF this] obtain wd where
    wd: "wd \<in> set wds" "\<not> relaxed_skips s ''Gym'' wd" "gym_days s' = gym_days s @ [wd]"
    by auto
  from wd(2) have "\<forall>gd\<in>set (gym_days s). 2 \<le> \<bar>wd - gd\<bar>"
    by (simp add: relaxed_skips_def not_list_ex_gym)
  with wd show "\<exists>wd\<in>set wds. gym_days s' = gym_days s @ [wd] \<and>
          (\<forall>gd\<in>set (gym_days s). 2 \<le> \<bar>wd - gd\<bar>)" by blast
qed

theorem gym_ends_by_nine_and_days_are_spaced_witness:
  "(\<exists>evs. build_events 738886 = Inr evs \<and>
      (\<forall>e\<in>set evs. ev_name e = ''Gym'' \<longrightarrow>
          dt_date (ev_end e) = dt_date (ev_start e) \<and> dt_time (ev_end e) \<le> time 21 0) \<and>
      (\<exists>st. run_engine 738886 = Inr st \<and> evs = sort_key ev_start (events st) \<and>
          (\<forall>e\<in>set evs. ev_name e = ''Gym'' \<longrightarrow>
              (\<exists>wd\<in>set (gym_days st). in_day_window 738886 wd e)) \<and>
          (\<forall>i j. i < j \<and> j < length (gym_days st) \<longrightarrow>
              2 \<le> \<bar>gym_days st ! i - gym_days st ! j\<bar>))) \<and>
   quarter_hours (3 / 4) \<and>
   (\<exists>seed s'. seed_teaching 738886 [0..6] [] = Inr seed \<and>
      strict_pass 738886 ''Gym'' (3 / 4) ''#10b981'' preferred_days (initial_sched seed)
        = Inr (s', True) \<and>
      events s' = seed @ [task_event ''Gym'' (combine 738886 (time 20 0)) 45 ''#10b981''] \<and>
      gym_days s' = gym_days (initial_sched seed) @ [0] \<and>
      (\<forall>gd\<in>set (gym_days (initial_sched seed)). 2 \<le> \<bar>0 - gd\<bar>))"
proof -
  from build_events_total[OF valid_week_example] obtain evs where
    a: "build_events 738886 = Inr evs" by blast
  obtain seed where seed: "seed_teaching 738886 [0..6] [] = Inr seed" by (rule seed_example)
  note p = gym_first_placement_example[unfolded seed sum.case]
  let ?s' = "strict_update (initial_sched seed) ''Gym'' 0
      (seed @ [task_event ''Gym'' (combine 738886 (time 20 0)) 45 ''#10b981''])"
  have ev0: "events (initial_sched seed) = seed" by (simp add: initial_sched_def)
  have sp: "strict_pass 738886 ''Gym'' (3 / 4) ''#10b981'' preferred_days (initial_sched seed)
        = Inr (?s', True)"
    unfolding preferred_days_def
    by (rule strict_pass_first_day[OF initial_sched_not_skipped(1)]) (simp add: ev0 p)
  have q: "quarter_hours (3 / 4)" by (simp add: quarter_hours_def)
  have e1: "events ?s' = seed @ [task_event ''Gym'' (combine 738886 (time 20 0)) 45 ''#10b981'']"
    and g1: "gym_days ?s' = gym_days (initial_sched seed) @ [0]"
    and g0: "\<forall>gd\<in>set (gym_days (initial_sched seed)). 2 \<le> \<bar>0 - gd\<bar>"
    by (simp_all add: strict_update_def initial_sched_def)
  note t = gym_ends_by_nine_and_days_are_spaced[where week_start = 738886 and evs = evs
      and hrs = "3 / 4" and pass = strict_pass and color = "''#10b981''"
      and wds = preferred_days and s = "initial_sched seed" and s' = ?s']
  from t a q seed sp e1 g1 g0 show ?thesis by blast
qed

section \<open>chessable/website tasks start after 9 PM on their own day\<close>

lemma chessable_first_placement_example:
  "(case seed_teaching 738886 [0..6] [] of
      Inl err \<Rightarrow> False
    | Inr seed \<Rightarrow>
        try_place_task_on_day 738886 seed ''chessable/website tasks'' 2 ''#0ea5e9'' 0 =
          Inr (seed @ [task_event ''chessable/website tasks'' (combine 738886 (time 22 0)) 120
                         ''#0ea5e9''], True))"
  by code_simp

text \<open>
  C5. Every event named "chessable/website tasks" of the list \<open>build_events\<close> returns starts
  at 21:00 or later, and its start date is the date of a weekday the task has recorded as
  used. A placement of this task on weekday \<open>wd\<close> appends an event whose start date is the
  date of \<open>wd\<close> itself, never the day after on which the window ends.
\<close>

theorem chessable_starts_after_nine_on_its_day:
  "(build_events week_start = Inr evs \<longrightarrow>
      (\<forall>e\<in>set evs. ev_name e = ''chessable/website tasks'' \<longrightarrow>
          time 21 0 \<le> dt_time (ev_start e)) \<and>
      (\<exists>st. run_engine week_start = Inr st \<and> evs = sort_key ev_start (events st) \<and>
          (\<forall>e\<in>set evs. ev_name e = ''chessable/website tasks'' \<longrightarrow>
              (\<exists>wd\<in>used_days st ''chessable/website tasks''.
                  dt_date (ev_start e) = week_start + wd)))) \<and>
   (quarter_hours hrs \<and>
    try_place_task_on_day week_start evs_before ''chessable/website tasks'' hrs color wd
      = Inr (evs_after, True) \<longrightarrow>
      (\<exists>start. evs_after = evs_before @
                   [task_event ''chessable/website tasks'' start (int_trunc (hrs * 60)) color] \<and>
               time 21 0 \<le> dt_time start \<and> dt_date start = week_start + wd))"
proof (intro conjI impI)
  assume b: "build_events week_start = Inr evs"
  then obtain st where st: "run_engine week_start = Inr st"
    "evs = sort_key ev_start (events st)" "set evs = set (events st)"
    by (rule set_build_events)
  have task: "ev_kind e = ''task''" if "e \<in> set evs" "ev_name e = ''chessable/website tasks''" for e
    using task_names_are_tasks[OF st(1), of e] that st(3) by simp
  show "\<forall>e\<in>set evs. ev_name e = ''chessable/website tasks'' \<longrightarrow>
          time 21 0 \<le> dt_time (ev_start e)"
    using run_engine_chessable[OF st(1)] task st(3) by blast
  have "\<forall>e\<in>set evs. ev_name e = ''chessable/website tasks'' \<longrightarrow>
              (\<exists>wd\<in>used_days st ''chessable/website tasks''.
                  dt_date (ev_start e) = week_start + wd)"
  proof (intro ballI impI)
    fix e assume e: "e \<in> set evs" "ev_name e = ''chessable/website tasks''"
    with run_engine_chessable[OF st(1)] task st(3)
    have "dt_date (ev_start e) - week_start \<in> used_days st ''chessable/website tasks''"
      by blast
    then show "\<exists>wd\<in>used_days st ''chessable/website tasks''.
                  dt_date (ev_start e) = week_start + wd"
      by (intro bexI[of _ "dt_date (ev_start e) - week_start"]) simp_all
  qed
  with st(1) st(2)
  show "\<exists>st. run_engine week_start = Inr st \<and> evs = sort_key ev_start (events st) \<and>
          (\<forall>e\<in>set evs. ev_name e = ''chessable/website tasks'' \<longrightarrow>
              (\<exists>wd\<in>used_days st ''chessable/website tasks''.
                  dt_date (ev_start e) = week_start + wd))"
    by blast
next
  assume "quarter_hours hrs \<and>
    try_place_task_on_day week_start evs_before ''chessable/website tasks'' hrs color wd
      = Inr (evs_after, True)"
  then have "try_place_task_on_day week_start evs_before ''chessable/website tasks'' hrs color wd
      = Inr (evs_after, True)" by simp
  from try_place_cases[OF this]
  show "\<exists>start. evs_after = evs_before @
                   [task_event ''chessable/website tasks'' start (int_trunc (hrs * 60)) color] \<and>
               time 21 0 \<le> dt_time start \<and> dt_date start = week_start + wd"
    by auto
qed

theorem chessable_starts_after_nine_on_its_day_witness:
  "(\<exists>evs. build_events 738886 = Inr evs \<and>
      (\<forall>e\<in>set evs. ev_name e = ''chessable/website tasks'' \<longrightarrow>
          time 21 0 \<le> dt_time (ev_start e)) \<and>
      (\<exists>st. run_engine 738886 = Inr st \<and> evs = sort_key ev_start (events st) \<and>
          (\<forall>e\<in>set evs. ev_name e = ''chessable/website tasks'' \<longrightarrow>
              (\<exists>wd\<in>used_days st ''chessable/website tasks''.
                  dt_date (ev_start e) = 738886 + wd)))) \<and>
   quarter_hours 2 \<and>
   (\<exists>seed start. seed_teaching 738886 [0..6] [] = Inr seed \<and>
      try_place_task_on_day 738886 seed ''chessable/website tasks'' 2 ''#0ea5e9'' 0 =
          Inr (seed @ [task_event ''chessable/website tasks'' (combine 738886 (time 22 0)) 120
                         ''#0ea5e9''], True) \<and>
      seed @ [task_event ''chessable/website tasks'' (combine 738886 (time 22 0)) 120 ''#0ea5e9'']
        = seed @ [task_event ''chessable/website tasks'' start (int_trunc (2 * 60)) ''#0ea5e9''] \<and>
      time 21 0 \<le> dt_time start \<and> dt_date start = 738886 + 0)"
proof -
  from build_events_total[OF valid_week_example] obtain evs where
    a: "build_events 738886 = Inr evs" by blast
  obtain seed where seed: "seed_teaching 738886 [0..6] [] = Inr seed" by (rule seed_example)
  note p = chessable_first_placement_example[unfolded seed sum.case]
  have q: "quarter_hours 2" by (simp add: quarter_hours_def)
  note t = chessable_starts_after_nine_on_its_day[where week_start = 738886 and evs = evs
      and hrs = 2 and color = "''#0ea5e9''" and wd = 0 and evs_before = seed
      and evs_after = "seed @ [task_event ''chessable/website tasks''
                                 (combine 738886 (time 22 0)) 120 ''#0ea5e9'']"]
  from t a q seed p show ?thesis by blast
qed

section \<open>Opening Study and Endgame Study never share a weekday\<close>

lemma opening_first_placement_example:
  "(case seed_teaching 738886 [0..6] [] of
      Inl err \<Rightarrow> False
    | Inr seed \<Rightarrow>
        try_place_task_on_day 738886 seed ''Opening Study'' 1 ''#6366f1'' 0 =
          Inr (seed @ [task_event ''Opening Study'' (combine 738886 (time 22 0)) 60 ''#6366f1''],
               True))"
  by code_simp

text \<open>
  C6. In the final state of a run no weekday is recorded as used by both "Opening Study"
  and "Endgame Study", and every event of either task in the list \<open>build_events\<close> returns
  lies in the day window of a weekday recorded for its own task: an Opening event and an
  Endgame event are always assigned to different weekdays. In both passes a placement of
  one of the two tasks happens only on a weekday the other task has not used, and it
  records that weekday for the placed task.
\<close>

theorem opening_and_endgame_on_different_days:
  "(build_events week_start = Inr evs \<longrightarrow>
      (\<exists>st. run_engine week_start = Inr st \<and> evs = sort_key ev_start (events st) \<and>
          used_days st ''Opening Study'' \<inter> used_days st ''Endgame Study'' = {} \<and>
          (\<forall>e\<in>set evs. ev_name e = ''Opening Study'' \<or> ev_name e = ''Endgame Study'' \<longrightarrow>
              (\<exists>wd\<in>used_days st (ev_name e). in_day_window week_start wd e)) \<and>
          (\<forall>a\<in>set evs. \<forall>b\<in>set evs.
              ev_name a = ''Opening Study'' \<and> ev_name b = ''Endgame Study'' \<longrightarrow>
              (\<exists>wa wb. wa \<noteq> wb \<and> in_day_window week_start wa a \<and>
                         in_day_window week_start wb b)))) \<and>
   (quarter_hours hrs \<and> (pass = strict_pass \<or> pass = relaxed_pass) \<and>
    pass week_start name hrs color wds s = Inr (s', True) \<longrightarrow>
      (\<exists>wd\<in>set wds. used_days s' = (used_days s)(name := insert wd (used_days s name)) \<and>
          (name = ''Opening Study'' \<longrightarrow> wd \<notin> used_days s ''Endgame Study'') \<and>
          (name = ''Endgame Study'' \<longrightarrow> wd \<notin> used_days s ''Opening Study''))) \<and>
   (quarter_hours hrs \<and>
    used_days s ''Opening Study'' \<inter> used_days s ''Endgame Study'' = {} \<and>
    place_occurrence week_start name hrs color s = Inr s' \<longrightarrow>
      used_days s' ''Opening Study'' \<inter> used_days s' ''Endgame Study'' = {})"
proof (intro conjI impI)
  assume b: "build_events week_start = Inr evs"
  then obtain st where st: "run_engine week_start = Inr st"
    "evs = sort_key ev_start (events st)" "set evs = set (events st)"
    by (rule set_build_events)
  have win: "\<exists>wd\<in>used_days st (ev_name e). in_day_window week_start wd e"
    if "e \<in> set evs" "ev_name e = ''Opening Study'' \<or> ev_name e = ''Endgame Study''" for e
  proof -
    from that(2) have "ev_name e \<notin> {''Beginner Class'', ''Leo Mootoo'', ''Pranava Classes'',
        ''Advanced Class'', ''Jaydon'', ''Amrit''}" by auto
    with task_names_are_tasks[OF st(1), of e] that(1) st(3) have "ev_kind e = ''task''" by simp
    with run_engine_assigned[OF st(1)] that(1) st(3) show ?thesis by blast
  qed
  have ex: "used_days st ''Opening Study'' \<inter> used_days st ''Endgame Study'' = {}"
    by (rule run_engine_exclusive[OF st(1)])
  have pair: "\<exists>wa wb. wa \<noteq> wb \<and> in_day_window week_start wa a \<and> in_day_window week_start wb b"
    if "a \<in> set evs" "b \<in> set evs" "ev_name a = ''Opening Study''" "ev_name b = ''Endgame Study''"
    for a b
  proof -
    from win[of a] that obtain wa where
      wa: "wa \<in> used_days st ''Opening Study''" "in_day_window week_start wa a" by auto
    from win[of b] that obtain wb where
      wb: "wb \<in> used_days st ''Endgame Study''" "in_day_window week_start wb b" by auto
    from wa(1) wb(1) ex have "wa \<noteq> wb" by blast
    with wa(2) wb(2) show ?thesis by blast
  qed
  from st(1) st(2) ex win pair
  show "\<exists>st. run_engine week_start = Inr st \<and> evs = sort_key ev_start (events st) \<and>
          used_days st ''Opening Study'' \<inter> used_days st ''Endgame Study'' = {} \<and>
          (\<forall>e\<in>set evs. ev_name e = ''Opening Study'' \<or> ev_name e = ''Endgame Study'' \<longrightarrow>
              (\<exists>wd\<in>used_days st (ev_name e). in_day_window week_start wd e)) \<and>
          (\<forall>a\<in>set evs. \<forall>b\<in>set evs.
              ev_name a = ''Opening Study'' \<and> ev_name b = ''Endgame Study'' \<longrightarrow>
              (\<exists>wa wb. wa \<noteq> wb \<and> in_day_window week_start wa a \<and>
                         in_day_window week_start wb b))"
    by (intro exI[of _ st] conjI ballI impI) blast+
next
  assume "quarter_hours hrs \<and> (pass = strict_pass \<or> pass = relaxed_pass) \<and>
    pass week_start name hrs color wds s = Inr (s', True)"
  then have "pass = strict_pass \<or> pass = relaxed_pass"
    and "pass week_start name hrs color wds s = Inr (s', True)" by simp_all
  from pass_success[OF this] obtain wd where
    wd: "wd \<in> set wds" "\<not> relaxed_skips s name wd"
        "used_days s' = (used_days s)(name := insert wd (used_days s name))"
    by auto
  from wd(2) have "name = ''Opening Study'' \<longrightarrow> wd \<notin> used_days s ''Endgame Study''"
    and "name = ''Endgame Study'' \<longrightarrow> wd \<notin> used_days s ''Opening Study''"
    by (simp_all add: relaxed_skips_def)
  with wd(1) wd(3)
  show "\<exists>wd\<in>set wds. used_days s' = (used_days s)(name := insert wd (used_days s name)) \<and>
          (name = ''Opening Study'' \<longrightarrow> wd \<notin> used_days s ''Endgame Study'') \<and>
          (name = ''Endgame Study'' \<longrightarrow> wd \<notin> used_days s ''Opening Study'')"
    by blast
next
  assume "quarter_hours hrs \<and>
    used_days s ''Opening Study'' \<inter> used_days s ''Endgame Study'' = {} \<and>
    place_occurrence week_start name hrs color s = Inr s'"
  then show "used_days s' ''Opening Study'' \<inter> used_days s' ''Endgame Study'' = {}"
    using place_occurrence_exclusive by blast
qed

theorem opening_and_endgame_on_different_days_witness:
  "(\<exists>evs st. build_events 738886 = Inr evs \<and>
      run_engine 738886 = Inr st \<and> evs = sort_key ev_start (events st) \<and>
      used_days st ''Opening Study'' \<inter> used_days st ''Endgame Study'' = {} \<and>
      (\<forall>e\<in>set evs. ev_name e = ''Opening Study'' \<or> ev_name e = ''Endgame Study'' \<longrightarrow>
          (\<exists>wd\<in>used_days st (ev_name e). in_day_window 738886 wd e)) \<and>
      (\<forall>a\<in>set evs. \<forall>b\<in>set evs.
          ev_name a = ''Opening Study'' \<and> ev_name b = ''Endgame Study'' \<longrightarrow>
          (\<exists>wa wb. wa \<noteq> wb \<and> in_day_window 738886 wa a \<and> in_day_window 738886 wb b))) \<and>
   quarter_hours 1 \<and>
   (\<exists>seed s'. seed_teaching 738886 [0..6] [] = Inr seed \<and>
      used_days (initial_sched seed) ''Opening Study'' \<inter>
        used_days (initial_sched seed) ''Endgame Study'' = {} \<and>
      strict_pass 738886 ''Opening Study'' 1 ''#6366f1'' preferred_days (initial_sched seed)
        = Inr (s', True) \<and>
      place_occurrence 738886 ''Opening Study'' 1 ''#6366f1'' (initial_sched seed) = Inr s' \<and>
      events s' = seed @ [task_event ''Opening Study'' (combine 738886 (time 22 0)) 60 ''#6366f1''] \<and>
      used_days s' ''Opening Study'' = {0} \<and>
      0 \<notin> used_days (initial_sched seed) ''Endgame Study'' \<and>
      used_days s' ''Opening Study'' \<inter> used_days s' ''Endgame Study'' = {})"
proof -
  from build_events_total[OF valid_week_example] obtain evs where
    a: "build_events 738886 = Inr evs" by blast
  obtain seed where seed: "seed_teaching 738886 [0..6] [] = Inr seed" by (rule seed_example)
  note p = opening_first_placement_example[unfolded seed sum.case]
  let ?s = "initial_sched seed"
  let ?s' = "strict_update ?s ''Opening Study'' 0
      (seed @ [task_event ''Opening Study'' (combine 738886 (time 22 0)) 60 ''#6366f1''])"
  have ev0: "events ?s = seed" by (simp add: initial_sched_def)
  have sp: "strict_pass 738886 ''Opening Study'' 1 ''#6366f1'' preferred_days ?s = Inr (?s', True)"
    unfolding preferred_days_def
    by (rule strict_pass_first_day[OF initial_sched_not_skipped(1)]) (simp add: ev0 p)
  then have po: "place_occurrence 738886 ''Opening Study'' 1 ''#6366f1'' ?s = Inr ?s'"
    by (simp add: place_occurrence_def)
  have q: "quarter_hours 1" by (simp add: quarter_hours_def)
  have i0: "used_days ?s ''Opening Study'' \<inter> used_days ?s ''Endgame Study'' = {}"
    and n0: "0 \<notin> used_days ?s ''Endgame Study''"
    by (simp_all add: initial_sched_def)
  have e1: "events ?s' = seed @ [task_event ''Opening Study'' (combine 738886 (time 22 0)) 60 ''#6366f1'']"
    and u1: "used_days ?s' ''Opening Study'' = {0}"
    by (simp_all add: strict_update_def initial_sched_def)
  note t = opening_and_endgame_on_different_days[where week_start = 738886 and evs = evs
      and hrs = 1 and pass = strict_pass and name = "''Opening Study''" and color = "''#6366f1''"
      and wds = preferred_days and s = ?s and s' = ?s']
  from t a q sp po i0 have
    r1: "\<exists>st. run_engine 738886 = Inr st \<and> evs = sort_key ev_start (events st) \<and>
          used_days st ''Opening Study'' \<inter> used_days st ''Endgame Study'' = {} \<and>
          (\<forall>e\<in>set evs. ev_name e = ''Opening Study'' \<or> ev_name e = ''Endgame Study'' \<longrightarrow>
              (\<exists>wd\<in>used_days st (ev_name e). in_day_window 738886 wd e)) \<and>
          (\<forall>a\<in>set evs. \<forall>b\<in>set evs.
              ev_name a = ''Opening Study'' \<and> ev_name b = ''Endgame Study'' \<longrightarrow>
              (\<exists>wa wb. wa \<noteq> wb \<and> in_day_window 738886 wa a \<and> in_day_window 738886 wb b))"
    and r2: "used_days ?s' ''Opening Study'' \<inter> used_days ?s' ''Endgame Study'' = {}"
    by blast+
  from r1 a have c1: "\<exists>evs st. build_events 738886 = Inr evs \<and>
      run_engine 738886 = Inr st \<and> evs = sort_key ev_start (events st) \<and>
      used_days st ''Opening Study'' \<inter> used_days st ''Endgame Study'' = {} \<and>
      (\<forall>e\<in>set evs. ev_name e = ''Opening Study'' \<or> ev_name e = ''Endgame Study'' \<longrightarrow>
          (\<exists>wd\<in>used_days st (ev_name e). in_day_window 738886 wd e)) \<and>
      (\<forall>a\<in>set evs. \<forall>b\<in>set evs.
          ev_name a = ''Opening Study'' \<and> ev_name b = ''Endgame Study'' \<longrightarrow>
          (\<exists>wa wb. wa \<noteq> wb \<and> in_day_window 738886 wa a \<and> in_day_window 738886 wb b))"
    by blast
  from seed i0 sp po e1 u1 n0 r2 have c3: "\<exists>seed s'. seed_teaching 738886 [0..6] [] = Inr seed \<and>
      used_days (initial_sched seed) ''Opening Study'' \<inter>
        used_days (initial_sched seed) ''Endgame Study'' = {} \<and>
      strict_pass 738886 ''Opening Study'' 1 ''#6366f1'' preferred_days (initial_sched seed)
        = Inr (s', True) \<and>
      place_occurrence 738886 ''Opening Study'' 1 ''#6366f1'' (initial_sched seed) = Inr s' \<and>
      events s' = seed @ [task_event ''Opening Study'' (combine 738886 (time 22 0)) 60 ''#6366f1''] \<and>
      used_days s' ''Opening Study'' = {0} \<and>
      0 \<notin> used_days (initial_sched seed) ''Endgame Study'' \<and>
      used_days s' ''Opening Study'' \<inter> used_days s' ''Endgame Study'' = {}"
    by blast
  from c1 q c3 show ?thesis by blast
qed

section \<open>No task gets more events than its occurrences\<close>

text \<open>
  C10. For every entry (name, duration, occurrences, colour) of \<open>TASK_SPECS\<close> the list
  \<open>build_events\<close> returns holds at most \<open>occurrences\<close> task events with that name. An
  occurrence appends one event or none, so on any catalog the number of task events with a
  name grows by at most the occurrences the catalog asks for that name.
\<close>

theorem at_most_the_requested_occurrences:
  "(build_events week_start = Inr evs \<and> (name, hrs, cnt, color) \<in> set TASK_SPECS \<longrightarrow>
      length (filter (\<lambda>e. ev_kind e = ''task'' \<and> ev_name e = name) evs) \<le> nat cnt) \<and>
   (quarter_hours h \<and> place_occurrence week_start n h c s = Inr s' \<longrightarrow>
      events s' = events s \<or>
      (\<exists>start. events s' = events s @ [task_event n start (int_trunc (h * 60)) c])) \<and>
   (list_all (\<lambda>(n, h, k, c). quarter_hours h) specs \<and>
    place_tasks week_start specs s = Inr s'' \<longrightarrow>
      length (filter (\<lambda>e. ev_kind e = ''task'' \<and> ev_name e = name) (events s''))
        \<le> length (filter (\<lambda>e. ev_kind e = ''task'' \<and> ev_name e = name) (events s))
            + sum_list (map (\<lambda>(n, h, k, c). if n = name then nat k else 0) specs))"
proof (intro conjI impI)
  assume a: "build_events week_start = Inr evs \<and> (name, hrs, cnt, color) \<in> set TASK_SPECS"
  then obtain st where st: "run_engine week_start = Inr st"
    "evs = sort_key ev_start (events st)"
    using build_events_run[of week_start evs] by blast
  have "length (filter (\<lambda>e. ev_kind e = ''task'' \<and> ev_name e = name) evs)
      = length (filter (\<lambda>e. ev_kind e = ''task'' \<and> ev_name e = name) (events st))"
    unfolding st(2) by (simp add: filter_sort)
  with run_engine_count[OF st(1), of name hrs cnt color] a
  show "length (filter (\<lambda>e. ev_kind e = ''task'' \<and> ev_name e = name) evs) \<le> nat cnt"
    by simp
next
  assume "quarter_hours h \<and> place_occurrence week_start n h c s = Inr s'"
  then have "place_occurrence week_start n h c s = Inr s'" by simp
  then show "events s' = events s \<or>
      (\<exists>start. events s' = events s @ [task_event n start (int_trunc (h * 60)) c])"
    by (rule place_occurrence_events)
next
  assume "list_all (\<lambda>(n, h, k, c). quarter_hours h) specs \<and>
    place_tasks week_start specs s = Inr s''"
  then have "place_tasks week_start specs s = Inr s''" by simp
  from place_tasks_count[OF this, of name]
  show "length (filter (\<lambda>e. ev_kind e = ''task'' \<and> ev_name e = name) (events s''))
        \<le> length (filter (\<lambda>e. ev_kind e = ''task'' \<and> ev_name e = name) (events s))
            + sum_list (map (\<lambda>(n, h, k, c). if n = name then nat k else 0) specs)" .
qed

text \<open>
  The witness takes Gym in the shipped catalog, and for the second and third part the
  packed week of C3, where a task of 12 hours is asked twice and placed once.
\<close>

theorem at_most_the_requested_occurrences_witness:
  "(\<exists>evs. build_events 738886 = Inr evs \<and>
      (''Gym'', 3 / 4, 2, ''#10b981'') \<in> set TASK_SPECS \<and>
      length (filter (\<lambda>e. ev_kind e = ''task'' \<and> ev_name e = ''Gym'') evs) \<le> nat 2) \<and>
   quarter_hours 12 \<and>
   list_all (\<lambda>(n, h, k, c). quarter_hours h) [(''Calculation'', 12, 2::int, ''#f472b6'')] \<and>
   (\<exists>seed s'. seed_teaching 738886 [0..6] [] = Inr seed \<and>
      place_occurrence 738886 ''Calculation'' 12 ''#f472b6'' (initial_sched seed) = Inr s' \<and>
      events s' = events (initial_sched seed) @
                    [task_event ''Calculation'' (combine 738891 (time 13 0)) 720 ''#f472b6''] \<and>
      place_occurrence 738886 ''Calculation'' 12 ''#f472b6'' s' = Inr s' \<and>
      place_tasks 738886 [(''Calculation'', 12, 2, ''#f472b6'')] (initial_sched seed) = Inr s' \<and>
      length (filter (\<lambda>e. ev_kind e = ''task'' \<and> ev_name e = ''Calculation'') (events s'))
        \<le> length (filter (\<lambda>e. ev_kind e = ''task'' \<and> ev_name e = ''Calculation'')
                      (events (initial_sched seed)))
            + sum_list (map (\<lambda>(n, h, k, c). if n = ''Calculation'' then nat k else 0)
                          [(''Calculation'', 12::rat, 2, ''#f472b6'')]))"
proof -
  let ?n = "''Calculation''" and ?c = "''#f472b6''"
  from build_events_total[OF valid_week_example] obtain evs where
    a: "build_events 738886 = Inr evs" by blast
  have m: "(''Gym'', 3 / 4, 2, ''#10b981'') \<in> set TASK_SPECS" by (simp add: TASK_SPECS_def)
  have q: "quarter_hours 12" by (simp add: quarter_hours_def)
  have l: "list_all (\<lambda>(n, h, k, c). quarter_hours h) [(?n, 12, 2::int, ?c)]" by (simp add: q)
  obtain seed where seed: "seed_teaching 738886 [0..6] [] = Inr seed" by (rule seed_example)
  from place_occurrence_total[OF valid_week_example] obtain s' where
    p1: "place_occurrence 738886 ?n 12 ?c (initial_sched seed) = Inr s'" by blast
  note x = packed_week_second_occurrence[unfolded seed sum.case p1]
  from x have ev: "events s' = seed @ [task_event ?n (combine 738891 (time 13 0)) 720 ?c]"
    by (rule conjunct1)
  then have ev': "events s' = events (initial_sched seed) @
                    [task_event ?n (combine 738891 (time 13 0)) 720 ?c]"
    by (simp add: initial_sched_def)
  from x have sp: "case strict_pass 738886 ?n 12 ?c preferred_days s' of
                Inl err \<Rightarrow> False | Inr (s, placed) \<Rightarrow> \<not> placed"
    by (rule conjunct2[THEN conjunct1])
  from x have rp: "case relaxed_pass 738886 ?n 12 ?c preferred_days s' of
                Inl err \<Rightarrow> False | Inr (s, placed) \<Rightarrow> \<not> placed"
    by (rule conjunct2[THEN conjunct2, THEN conjunct1])
  from sp obtain s1 where s1: "strict_pass 738886 ?n 12 ?c preferred_days s' = Inr (s1, False)"
    by (cases "strict_pass 738886 ?n 12 ?c preferred_days s'") auto
  from strict_pass_cases[OF s1] have "s1 = s'" by simp
  with s1 have s: "strict_pass 738886 ?n 12 ?c preferred_days s' = Inr (s', False)" by simp
  from rp obtain s2 where s2: "relaxed_pass 738886 ?n 12 ?c preferred_days s' = Inr (s2, False)"
    by (cases "relaxed_pass 738886 ?n 12 ?c preferred_days s'") auto
  from relaxed_pass_cases[OF s2] have "s2 = s'" by simp
  with s2 have r: "relaxed_pass 738886 ?n 12 ?c preferred_days s' = Inr (s', False)" by simp
  from passes_fail_unchanged(3)[OF s r]
  have p2: "place_occurrence 738886 ?n 12 ?c s' = Inr s'" .
  have "place_occurrences 738886 ?n 12 ?c (Suc (Suc 0)) (initial_sched seed) = Inr s'"
    using p1 p2 by simp
  then have pt: "place_tasks 738886 [(?n, 12, 2, ?c)] (initial_sched seed) = Inr s'"
    by (simp add: numeral_2_eq_2)
  note t = at_most_the_requested_occurrences[where week_start = 738886 and evs = evs
      and name = "''Gym''" and hrs = "3 / 4" and cnt = 2 and color = "''#10b981''"]
  from t a m have g: "length (filter (\<lambda>e. ev_kind e = ''task'' \<and> ev_name e = ''Gym'') evs) \<le> nat 2"
    by blast
  note u = at_most_the_requested_occurrences[where week_start = 738886 and name = ?n
      and specs = "[(?n, 12, 2, ?c)]" and s = "initial_sched seed" and s'' = s']
  from u[THEN conjunct2, THEN conjunct2, THEN mp, OF conjI[OF l pt]]
  have k: "length (filter (\<lambda>e. ev_kind e = ''task'' \<and> ev_name e = ?n) (events s'))
        \<le> length (filter (\<lambda>e. ev_kind e = ''task'' \<and> ev_name e = ?n)
                      (events (initial_sched seed)))
            + sum_list (map (\<lambda>(n, h, k, c). if n = ?n then nat k else 0) [(?n, 12::rat, 2, ?c)])"
    .
  from a m g have c1: "\<exists>evs. build_events 738886 = Inr evs \<and>
      (''Gym'', 3 / 4, 2, ''#10b981'') \<in> set TASK_SPECS \<and>
      length (filter (\<lambda>e. ev_kind e = ''task'' \<and> ev_name e = ''Gym'') evs) \<le> nat 2"
    by blast
  from seed p1 ev' p2 pt k have c2: "\<exists>seed s'. seed_teaching 738886 [0..6] [] = Inr seed \<and>
      place_occurrence 738886 ?n 12 ?c (initial_sched seed) = Inr s' \<and>
      events s' = events (initial_sched seed) @
                    [task_event ?n (combine 738891 (time 13 0)) 720 ?c] \<and>
      place_occurrence 738886 ?n 12 ?c s' = Inr s' \<and>
      place_tasks 738886 [(?n, 12, 2, ?c)] (initial_sched seed) = Inr s' \<and>
      length (filter (\<lambda>e. ev_kind e = ''task'' \<and> ev_name e = ?n) (events s'))
        \<le> length (filter (\<lambda>e. ev_kind e = ''task'' \<and> ev_name e = ?n)
                      (events (initial_sched seed)))
            + sum_list (map (\<lambda>(n, h, k, c). if n = ?n then nat k else 0) [(?n, 12::rat, 2, ?c)])"
    by blast
  from c1 q l c2 show ?thesis by blast
qed

end
